theory Spec2Isabelle
  imports Main "HOL-Library.Word" "HOL-Library.Sublist" "HOL-Library.Char_ord"
    "HOL-Library.List_Lexorder" "HOL-Library.AList"
begin

section \<open>The file-based blob store of bluestack\<close>

text \<open>
  The blob storage engine (\<^verbatim>\<open>FileBlobStore\<close>, package \<^verbatim>\<open>blob\<close>) keeps blobs as files under
  \<^verbatim>\<open>baseDir/account/container/blobName\<close> and an in-memory index of the containers it has
  created. Every method computes a path with \<^verbatim>\<open>filepath.Join\<close> and then calls one or two
  functions of package \<^verbatim>\<open>os\<close>. The embedding therefore has three layers: paths, a model of
  the directory tree with the \<^verbatim>\<open>os\<close> calls the engine makes, and the engine's methods
  themselves, each returning its error (if any) together with the state it leaves behind.
\<close>

subsection \<open>Paths\<close>

text \<open>
  A cleaned, rooted path is the list of its elements; \<open>[]\<close> is the root. The working
  directory of the process is taken to be the root of the modelled tree, so that a relative
  data directory such as \<^verbatim>\<open>./data\<close> is the path \<open>[''data'']\<close>. The separator is the slash
  (the Unix build of package \<^verbatim>\<open>filepath\<close>). A path is what the kernel resolves the text
  to that \<^verbatim>\<open>filepath.Join\<close> returns: a leading \<^verbatim>\<open>..\<close>, which \<^verbatim>\<open>filepath.Clean\<close> keeps in the text of
  a relative path, stays at the root when the path is resolved there.
\<close>

type_synonym byte = "8 word"
type_synonym path = "string list"

text \<open>\<^verbatim>\<open>strings.Split(s, "/")\<close>: the pieces of a string between slashes.\<close>

fun splitSep :: "string \<Rightarrow> string list" where
  "splitSep [] = [[]]"
| "splitSep (c # cs) =
     (if c = CHR ''/'' then [] # splitSep cs
      else (case splitSep cs of [] \<Rightarrow> [[c]] | w # ws \<Rightarrow> (c # w) # ws))"

text \<open>
  \<^verbatim>\<open>filepath.Clean\<close> on a rooted path, element by element: empty elements and \<^verbatim>\<open>.\<close> are
  dropped, \<^verbatim>\<open>..\<close> removes the element before it, and \<^verbatim>\<open>..\<close> at the root is dropped (the
  parent of the root is the root).
\<close>

fun resolve :: "path \<Rightarrow> string list \<Rightarrow> path" where
  "resolve p [] = p"
| "resolve p (e # es) =
     (if e = [] \<or> e = ''.'' then resolve p es
      else if e = ''..'' then resolve (butlast p) es
      else resolve (p @ [e]) es)"

text \<open>
  \<^verbatim>\<open>filepath.Join(dir, elem...)\<close> for a cleaned rooted \<open>dir\<close>: the elements are joined with
  slashes and the result is cleaned.
\<close>

definition filepath_Join :: "path \<Rightarrow> string list \<Rightarrow> path" where
  "filepath_Join dir elems = resolve dir (concat (map splitSep elems))"

text \<open>\<^verbatim>\<open>filepath.Dir\<close>: all but the last element; the root is its own parent.\<close>

definition filepath_Dir :: "path \<Rightarrow> path" where
  "filepath_Dir p = butlast p"

text \<open>
  \<^verbatim>\<open>filepath.Rel(root, path)\<close> for a path \<open>root @ rel\<close> met during a walk of \<open>root\<close>, followed by
  \<^verbatim>\<open>filepath.ToSlash\<close>: the elements of \<open>rel\<close> separated by slashes, and \<^verbatim>\<open>.\<close> for the root itself.
\<close>

fun joinSlash :: "string list \<Rightarrow> string" where
  "joinSlash [] = []"
| "joinSlash [x] = x"
| "joinSlash (x # y # ys) = x @ ''/'' @ joinSlash (y # ys)"

definition filepath_Rel :: "path \<Rightarrow> string" where
  "filepath_Rel rel = (if rel = [] then ''.'' else joinSlash rel)"

text \<open>\<^verbatim>\<open>filepath.HasPrefix\<close> is \<^verbatim>\<open>strings.HasPrefix\<close> on Unix.\<close>

definition filepath_HasPrefix :: "string \<Rightarrow> string \<Rightarrow> bool" where
  "filepath_HasPrefix p pfx = prefix pfx p"

subsection \<open>The directory tree and the calls of package os\<close>

text \<open>
  A directory is a list of named entries, looked up with \<^const>\<open>map_of\<close>; an entry is a regular
  file with its bytes or a directory. The engine creates nothing else. The tree has no
  permissions, no links and no bound on its size, so the errors are those of the shape of
  the tree and those of the names a path is made of.
\<close>

datatype node = File "byte list" | Dir "(string \<times> node) list"

type_synonym dir = "(string \<times> node) list"

datatype errno = ENOENT | ENOTDIR | EISDIR | ENOTEMPTY | EINVAL | ENAMETOOLONG

text \<open>\<^verbatim>\<open>os.IsNotExist\<close>\<close>

definition os_IsNotExist :: "errno \<Rightarrow> bool" where
  "os_IsNotExist e = (e = ENOENT)"

text \<open>
  Two things make a name unusable. A path with a NUL byte in it never reaches the kernel:
  package \<^verbatim>\<open>syscall\<close> refuses it with EINVAL when it makes the C string
  (\<^verbatim>\<open>BytePtrFromString\<close>). A path element of more than 255 bytes (\<^verbatim>\<open>NAME_MAX\<close>) is refused with
  ENAMETOOLONG by the directory in which it is looked up, so only when the elements before
  it have been resolved: the first error met on the way is the one reported.
\<close>

definition hasNUL :: "string \<Rightarrow> bool" where
  "hasNUL x = (CHR 0x00 \<in> set x)"

definition tooLong :: "string \<Rightarrow> bool" where
  "tooLong x = (255 < length x)"

definition nulIn :: "path \<Rightarrow> bool" where
  "nulIn p = list_ex hasNUL p"

definition validName :: "string \<Rightarrow> bool" where
  "validName x = (\<not> hasNUL x \<and> \<not> tooLong x)"

text \<open>
  The kernel also bounds the text of a whole path (\<^verbatim>\<open>PATH_MAX\<close>: 4096 bytes with the final
  NUL). That bound is not part of the tree, which has paths of any depth; it is a condition
  on the path where a call is stated to succeed. The text of a path is its elements with
  slashes between them, and one byte more is counted for the slash before them when the
  data directory is given from the root.
\<close>

definition validPath :: "path \<Rightarrow> bool" where
  "validPath p = (\<not> nulIn p \<and> \<not> list_ex tooLong p \<and> Suc (length (joinSlash p)) < 4096)"

text \<open>
  The names \<^verbatim>\<open>File.Readdirnames\<close> gives for a directory, sorted as \<^verbatim>\<open>filepath.Walk\<close> sorts
  them. A directory holds no name with a NUL byte and none of more than 255 bytes; where
  the list has such a pair, or a second pair for a name, it is not an entry of the
  directory, and no call finds it.
\<close>

definition readDirNames :: "dir \<Rightarrow> string list" where
  "readDirNames es = sort (remdups (filter validName (map fst es)))"

text \<open>
  The path walk of the kernel, from the root directory, for a path without NUL bytes:
  a missing element is ENOENT, an element below a regular file ENOTDIR.
\<close>

fun lookupPath :: "dir \<Rightarrow> path \<Rightarrow> errno + node" where
  "lookupPath es [] = Inr (Dir es)"
| "lookupPath es (x # xs) =
     (if tooLong x then Inl ENAMETOOLONG
      else
        (case map_of es x of
           None \<Rightarrow> Inl ENOENT
         | Some (File d) \<Rightarrow> (if xs = [] then Inr (File d) else Inl ENOTDIR)
         | Some (Dir ds) \<Rightarrow> lookupPath ds xs))"

text \<open>\<^verbatim>\<open>os.Stat\<close> (and \<^verbatim>\<open>os.Lstat\<close>: the tree has no links).\<close>

definition os_Stat :: "dir \<Rightarrow> path \<Rightarrow> errno + node" where
  "os_Stat es p = (if nulIn p then Inl EINVAL else lookupPath es p)"

definition isDir :: "dir \<Rightarrow> path \<Rightarrow> bool" where
  "isDir es p = (case os_Stat es p of Inr (Dir ds) \<Rightarrow> True | _ \<Rightarrow> False)"

definition isFile :: "dir \<Rightarrow> path \<Rightarrow> bool" where
  "isFile es p = (case os_Stat es p of Inr (File d) \<Rightarrow> True | _ \<Rightarrow> False)"

text \<open>
  What \<^verbatim>\<open>os.Stat\<close> tells of a path without reading it: the error, or that it is a directory
  (\<open>None\<close>), or a regular file, given with its bytes. \<open>lookInfo\<close> is the same for the path
  walk alone.
\<close>

definition statInfo :: "dir \<Rightarrow> path \<Rightarrow> errno + byte list option" where
  "statInfo es p =
     (case os_Stat es p of
        Inl e \<Rightarrow> Inl e
      | Inr (File d) \<Rightarrow> Inr (Some d)
      | Inr (Dir ds) \<Rightarrow> Inr None)"

definition lookInfo :: "dir \<Rightarrow> path \<Rightarrow> errno + byte list option" where
  "lookInfo es p =
     (case lookupPath es p of
        Inl e \<Rightarrow> Inl e
      | Inr (File d) \<Rightarrow> Inr (Some d)
      | Inr (Dir ds) \<Rightarrow> Inr None)"

text \<open>
  \<^verbatim>\<open>os.MkdirAll\<close>: when \<^verbatim>\<open>os.Stat\<close> of the path does not succeed, the parent is made first (by
  the same function) and then \<^verbatim>\<open>os.Mkdir\<close> is called for the path, so that the directories
  are made from the root down. The call succeeds on a directory that exists. It stops at the
  first element that cannot be made: EINVAL for an element with a NUL byte, ENAMETOOLONG for
  one that is too long, ENOTDIR for a regular file. The directories made before that stay,
  so the tree is returned in every case.
\<close>

fun os_MkdirAll :: "dir \<Rightarrow> path \<Rightarrow> errno option \<times> dir" where
  "os_MkdirAll es [] = (None, es)"
| "os_MkdirAll es (x # xs) =
     (if hasNUL x then (Some EINVAL, es)
      else if tooLong x then (Some ENAMETOOLONG, es)
      else
        (case map_of es x of
           None \<Rightarrow>
             (case os_MkdirAll [] xs of
                (e, ds') \<Rightarrow> (e, AList.update x (Dir ds') es))
         | Some (File d) \<Rightarrow> (Some ENOTDIR, es)
         | Some (Dir ds) \<Rightarrow>
             (case os_MkdirAll ds xs of
                (e, ds') \<Rightarrow> (e, AList.update x (Dir ds') es))))"

text \<open>
  \<^verbatim>\<open>os.RemoveAll\<close> for a path without NUL bytes: removes the path and everything below it;
  a path that does not exist is no error; a parent that is a regular file is (ENOTDIR).
  A path that ends in a dot (the working directory, here the root) is refused with EINVAL
  and nothing is removed. The tree is returned in every case.
\<close>

fun removeAllAt :: "dir \<Rightarrow> path \<Rightarrow> errno option \<times> dir" where
  "removeAllAt es [] = (Some EINVAL, es)"
| "removeAllAt es [x] =
     (if tooLong x then (Some ENAMETOOLONG, es) else (None, AList.delete x es))"
| "removeAllAt es (x # y # ys) =
     (if tooLong x then (Some ENAMETOOLONG, es)
      else
        (case map_of es x of
           None \<Rightarrow> (None, es)
         | Some (File d) \<Rightarrow> (Some ENOTDIR, es)
         | Some (Dir ds) \<Rightarrow>
             (case removeAllAt ds (y # ys) of
                (e, ds') \<Rightarrow> (e, AList.update x (Dir ds') es))))"

text \<open>
  \<^verbatim>\<open>os.RemoveAll\<close>. It calls \<^verbatim>\<open>os.Remove\<close> first, and when that fails with an error other than
  not-exist it opens the parent directory and unlinks the last element from there. With a
  NUL byte in the path \<^verbatim>\<open>os.Remove\<close> fails with EINVAL; opening the parent then fails with
  EINVAL as well when the NUL byte is in the parent's path, and otherwise with the error of
  the path walk to the parent, where a missing parent is taken to mean that nothing is to
  be removed: the call succeeds. When the parent can be opened, unlinking the last element
  is EINVAL.
\<close>

definition os_RemoveAll :: "dir \<Rightarrow> path \<Rightarrow> errno option \<times> dir" where
  "os_RemoveAll es p =
     (if nulIn (butlast p) then (Some EINVAL, es)
      else if nulIn p then
        (case lookupPath es (butlast p) of
           Inl e \<Rightarrow> (if os_IsNotExist e then (None, es) else (Some e, es))
         | Inr parent \<Rightarrow> (Some EINVAL, es))
      else removeAllAt es p)"

text \<open>
  \<^verbatim>\<open>os.WriteFile\<close>: creates or truncates the file and writes the bytes. The parent must be a
  directory (ENOENT when it is missing, ENOTDIR when it is a file) and the path must not be
  a directory (EISDIR). \<open>writeAt\<close> is the call for a path without NUL bytes.
\<close>

fun writeAt :: "dir \<Rightarrow> path \<Rightarrow> byte list \<Rightarrow> errno + dir" where
  "writeAt es [] content = Inl EISDIR"
| "writeAt es [x] content =
     (if tooLong x then Inl ENAMETOOLONG
      else
        (case map_of es x of
           Some (Dir ds) \<Rightarrow> Inl EISDIR
         | _ \<Rightarrow> Inr (AList.update x (File content) es)))"
| "writeAt es (x # y # ys) content =
     (if tooLong x then Inl ENAMETOOLONG
      else
        (case map_of es x of
           None \<Rightarrow> Inl ENOENT
         | Some (File d) \<Rightarrow> Inl ENOTDIR
         | Some (Dir ds) \<Rightarrow>
             (case writeAt ds (y # ys) content of
                Inl e \<Rightarrow> Inl e
              | Inr ds' \<Rightarrow> Inr (AList.update x (Dir ds') es))))"

definition os_WriteFile :: "dir \<Rightarrow> path \<Rightarrow> byte list \<Rightarrow> errno + dir" where
  "os_WriteFile es p content = (if nulIn p then Inl EINVAL else writeAt es p content)"

text \<open>
  \<^verbatim>\<open>os.ReadFile\<close>: the bytes of a regular file; the errors of opening the path are those of
  \<^verbatim>\<open>os.Stat\<close>; reading a directory fails with EISDIR.
\<close>

definition os_ReadFile :: "dir \<Rightarrow> path \<Rightarrow> errno + byte list" where
  "os_ReadFile es p =
     (case os_Stat es p of
        Inl e \<Rightarrow> Inl e
      | Inr (File d) \<Rightarrow> Inr d
      | Inr (Dir ds) \<Rightarrow> Inl EISDIR)"

text \<open>
  \<^verbatim>\<open>os.Remove\<close>: removes the named file or empty directory. A directory with entries is
  ENOTEMPTY, a missing name ENOENT, a parent that is a file ENOTDIR; the working directory
  (\<^verbatim>\<open>rmdir\<close> of a single dot) is EINVAL. \<open>removeAt\<close> is the call for a path without NUL
  bytes.
\<close>

fun removeAt :: "dir \<Rightarrow> path \<Rightarrow> errno + dir" where
  "removeAt es [] = Inl EINVAL"
| "removeAt es [x] =
     (if tooLong x then Inl ENAMETOOLONG
      else
        (case map_of es x of
           None \<Rightarrow> Inl ENOENT
         | Some (File d) \<Rightarrow> Inr (AList.delete x es)
         | Some (Dir ds) \<Rightarrow>
             (if readDirNames ds = [] then Inr (AList.delete x es) else Inl ENOTEMPTY)))"
| "removeAt es (x # y # ys) =
     (if tooLong x then Inl ENAMETOOLONG
      else
        (case map_of es x of
           None \<Rightarrow> Inl ENOENT
         | Some (File d) \<Rightarrow> Inl ENOTDIR
         | Some (Dir ds) \<Rightarrow>
             (case removeAt ds (y # ys) of
                Inl e \<Rightarrow> Inl e
              | Inr ds' \<Rightarrow> Inr (AList.update x (Dir ds') es))))"

definition os_Remove :: "dir \<Rightarrow> path \<Rightarrow> errno + dir" where
  "os_Remove es p = (if nulIn p then Inl EINVAL else removeAt es p)"

text \<open>
  \<^verbatim>\<open>filepath.Walk\<close>: the visits it makes, in order, each with the path relative to the walk's
  root. A node is visited before its entries; the entries of a directory are read, their
  names sorted, and each is walked in turn.
\<close>

function filepath_Walk :: "node \<Rightarrow> (path \<times> node) list" where
  "filepath_Walk (File d) = [([], File d)]"
| "filepath_Walk (Dir es) =
     ([], Dir es) #
     concat (map (\<lambda>x. case map_of es x of
                         None \<Rightarrow> []
                       | Some c \<Rightarrow> map (\<lambda>(rel, n). (x # rel, n)) (filepath_Walk c))
                 (readDirNames es))"
  by pat_completeness auto
termination
proof -
  have less: "map_of es x = Some c \<Longrightarrow> size c < Suc (size_list (size_prod (\<lambda>_. 0) size) es)"
    for es :: dir and x c
    by (induction es) (auto split: if_splits)
  show ?thesis
    by (relation "measure size") (auto dest: less)
qed

subsection \<open>The engine\<close>

text \<open>
  The store: its base directory, the index of containers (a Go \<^verbatim>\<open>map[string]bool\<close>), and
  the directory tree it works on. The lock \<^verbatim>\<open>mu\<close> makes every method atomic; a method is
  modelled as one step. File times (\<^verbatim>\<open>CreatedAt\<close>, \<^verbatim>\<open>ModifiedAt\<close>, \<^verbatim>\<open>LastModified\<close>) are
  left out: the tree keeps no clock.
\<close>

record FileBlobStore =
  baseDir :: path
  containers :: "string \<rightharpoonup> bool"
  disk :: dir

record Blob =
  Name :: string
  Container :: string
  Account :: string
  Content :: "byte list"
  ContentType :: string
  Size :: int
  Metadata :: "string \<rightharpoonup> string"

record BlobInfo =
  Name :: string
  ContentType :: string
  Size :: int
  Metadata :: "string \<rightharpoonup> string"

text \<open>
  The errors of the engine are messages built with \<^verbatim>\<open>fmt.Errorf\<close>; one constructor for each
  form of message. \<open>Failed msg e\<close> is \<^verbatim>\<open>fmt.Errorf(msg + ": %w", e)\<close>; \<open>WalkError e\<close> is the
  error of \<^verbatim>\<open>filepath.Walk\<close>, which \<^verbatim>\<open>ListBlobs\<close> returns as it is.
\<close>

datatype store_error =
    ContainerAlreadyExists string
  | ContainerDoesNotExist string
  | BlobDoesNotExist string
  | Failed string errno
  | WalkError errno

text \<open>
  The kinds of error the specification names, and the kind of each message: the two
  phrases the request handlers look for, \<^verbatim>\<open>already exists\<close> and \<^verbatim>\<open>does not exist\<close>, and the
  wrapped failures of the file system.
\<close>

datatype error_kind = InvalidArgument | AlreadyExists | NotFound | IOError | Internal

fun kind :: "store_error \<Rightarrow> error_kind" where
  "kind (ContainerAlreadyExists n) = AlreadyExists"
| "kind (ContainerDoesNotExist n) = NotFound"
| "kind (BlobDoesNotExist n) = NotFound"
| "kind (Failed msg e) = (if msg = ''failed to stat blob'' then Internal else IOError)"
| "kind (WalkError e) = IOError"

text \<open>\<^verbatim>\<open>m[key]\<close> on a \<^verbatim>\<open>map[string]bool\<close>: false for a missing key.\<close>

definition has :: "(string \<rightharpoonup> bool) \<Rightarrow> string \<Rightarrow> bool" where
  "has m key = (case m key of None \<Rightarrow> False | Some b \<Rightarrow> b)"

text \<open>Whether a result is an error of a given kind.\<close>

definition failsWith :: "error_kind \<Rightarrow> store_error option \<Rightarrow> bool" where
  "failsWith k r = (case r of None \<Rightarrow> False | Some e \<Rightarrow> kind e = k)"

definition failsWithL :: "error_kind \<Rightarrow> store_error + 'a \<Rightarrow> bool" where
  "failsWithL k r = (case r of Inl e \<Rightarrow> kind e = k | Inr v \<Rightarrow> False)"

text \<open>
  \<^verbatim>\<open>NewFileBlobStore(baseDir)\<close> on a given tree: the directory \<^verbatim>\<open>baseDir/blob\<close> is created and
  the index starts empty. When the directory cannot be created no store is returned.
\<close>

definition NewFileBlobStore :: "dir \<Rightarrow> string \<Rightarrow> store_error + FileBlobStore" where
  "NewFileBlobStore d dataDir =
     (let blobDir = filepath_Join [] [dataDir, ''blob''] in
      case os_MkdirAll d blobDir of
        (Some e, d') \<Rightarrow> Inl (Failed ''failed to create blob directory'' e)
      | (None, d') \<Rightarrow> Inr \<lparr>baseDir = blobDir, containers = Map.empty, disk = d'\<rparr>)"

definition containerPath :: "FileBlobStore \<Rightarrow> string \<Rightarrow> string \<Rightarrow> path" where
  "containerPath s account containerName = filepath_Join (baseDir s) [account, containerName]"

definition blobPath :: "FileBlobStore \<Rightarrow> string \<Rightarrow> string \<Rightarrow> string \<Rightarrow> path" where
  "blobPath s account containerName blobName =
     filepath_Join (containerPath s account containerName) [blobName]"

definition containerKey :: "string \<Rightarrow> string \<Rightarrow> string" where
  "containerKey account containerName = account @ ''/'' @ containerName"

definition CreateContainer ::
  "FileBlobStore \<Rightarrow> string \<Rightarrow> string \<Rightarrow> store_error option \<times> FileBlobStore" where
  "CreateContainer s account containerName =
     (let key = containerKey account containerName in
      if has (containers s) key then (Some (ContainerAlreadyExists containerName), s)
      else
        (case os_MkdirAll (disk s) (containerPath s account containerName) of
           (Some e, d) \<Rightarrow>
             (Some (Failed ''failed to create container directory'' e), s\<lparr>disk := d\<rparr>)
         | (None, d) \<Rightarrow> (None, s\<lparr>disk := d, containers := (containers s)(key \<mapsto> True)\<rparr>)))"

definition DeleteContainer ::
  "FileBlobStore \<Rightarrow> string \<Rightarrow> string \<Rightarrow> store_error option \<times> FileBlobStore" where
  "DeleteContainer s account containerName =
     (let key = containerKey account containerName in
      if \<not> has (containers s) key then (Some (ContainerDoesNotExist containerName), s)
      else
        (case os_RemoveAll (disk s) (containerPath s account containerName) of
           (Some e, d) \<Rightarrow> (Some (Failed ''failed to delete container directory'' e), s\<lparr>disk := d\<rparr>)
         | (None, d) \<Rightarrow> (None, s\<lparr>disk := d, containers := (containers s)(key := None)\<rparr>)))"

text \<open>\<^verbatim>\<open>ContainerExists\<close>; its error result is always nil.\<close>

definition ContainerExists :: "FileBlobStore \<Rightarrow> string \<Rightarrow> string \<Rightarrow> bool" where
  "ContainerExists s account containerName =
     has (containers s) (containerKey account containerName)"

text \<open>
  \<^verbatim>\<open>PutBlob\<close>. The content type and the metadata are parameters and are not used (the source
  has a TODO in their place). A call that fails leaves the directories it has made.
\<close>

definition PutBlob ::
  "FileBlobStore \<Rightarrow> string \<Rightarrow> string \<Rightarrow> string \<Rightarrow> byte list \<Rightarrow> string \<Rightarrow> (string \<rightharpoonup> string)
     \<Rightarrow> store_error option \<times> FileBlobStore" where
  "PutBlob s account containerName blobName content contentType metadata =
     (let key = containerKey account containerName;
          ensured =
            (if \<not> has (containers s) key then
               (case os_MkdirAll (disk s) (containerPath s account containerName) of
                  (Some e, d) \<Rightarrow> Inl (e, s\<lparr>disk := d\<rparr>)
                | (None, d) \<Rightarrow> Inr (s\<lparr>disk := d, containers := (containers s)(key \<mapsto> True)\<rparr>))
             else Inr s)
      in case ensured of
           Inl (e, s0) \<Rightarrow> (Some (Failed ''failed to ensure container directory'' e), s0)
         | Inr s1 \<Rightarrow>
             (let blobPath = blobPath s account containerName blobName;
                  blobDir = filepath_Dir blobPath
              in case os_MkdirAll (disk s1) blobDir of
                   (Some e, d2) \<Rightarrow>
                     (Some (Failed ''failed to create blob directory'' e), s1\<lparr>disk := d2\<rparr>)
                 | (None, d2) \<Rightarrow>
                     (case os_WriteFile d2 blobPath content of
                        Inl e \<Rightarrow> (Some (Failed ''failed to write blob'' e), s1\<lparr>disk := d2\<rparr>)
                      | Inr d3 \<Rightarrow> (None, s1\<lparr>disk := d3\<rparr>))))"

text \<open>
  \<^verbatim>\<open>GetBlob\<close>. The size is that of \<^verbatim>\<open>os.Stat\<close>: the length of the file (what is stat'ed after a
  successful read is a regular file).
\<close>

definition GetBlob ::
  "FileBlobStore \<Rightarrow> string \<Rightarrow> string \<Rightarrow> string \<Rightarrow> store_error + Blob" where
  "GetBlob s account containerName blobName =
     (let blobPath = blobPath s account containerName blobName in
      case os_ReadFile (disk s) blobPath of
        Inl e \<Rightarrow>
          (if os_IsNotExist e then Inl (BlobDoesNotExist blobName)
           else Inl (Failed ''failed to read blob'' e))
      | Inr content \<Rightarrow>
          (case os_Stat (disk s) blobPath of
             Inl e \<Rightarrow> Inl (Failed ''failed to stat blob'' e)
           | Inr info \<Rightarrow>
               Inr \<lparr>Blob.Name = blobName, Container = containerName, Account = account,
                    Content = content, Blob.ContentType = ''application/octet-stream'',
                    Blob.Size = (case info of File d \<Rightarrow> int (length d) | Dir ds \<Rightarrow> 0),
                    Blob.Metadata = Map.empty\<rparr>))"

definition DeleteBlob ::
  "FileBlobStore \<Rightarrow> string \<Rightarrow> string \<Rightarrow> string \<Rightarrow> store_error option \<times> FileBlobStore" where
  "DeleteBlob s account containerName blobName =
     (let blobPath = blobPath s account containerName blobName in
      case os_Remove (disk s) blobPath of
        Inl e \<Rightarrow>
          (if os_IsNotExist e then (Some (BlobDoesNotExist blobName), s)
           else (Some (Failed ''failed to delete blob'' e), s))
      | Inr d \<Rightarrow> (None, s\<lparr>disk := d\<rparr>))"

text \<open>
  The function \<^verbatim>\<open>ListBlobs\<close> passes to \<^verbatim>\<open>filepath.Walk\<close>, run over the visits of the walk
  with the slice \<open>results\<close> it appends to. Returning \<^verbatim>\<open>filepath.SkipAll\<close> ends the walk.
\<close>

fun walkFn :: "string \<Rightarrow> int \<Rightarrow> (path \<times> node) list \<Rightarrow> BlobInfo list \<Rightarrow> BlobInfo list" where
  "walkFn pfx maxResults [] results = results"
| "walkFn pfx maxResults ((rel, info) # visits) results =
     (case info of
        Dir ds \<Rightarrow> walkFn pfx maxResults visits results
      | File d \<Rightarrow>
          (let blobName = filepath_Rel rel in
           if pfx \<noteq> [] \<and> \<not> filepath_HasPrefix blobName pfx then
             walkFn pfx maxResults visits results
           else if maxResults > 0 \<and> int (length results) \<ge> maxResults then results
           else
             walkFn pfx maxResults visits
               (results @ [\<lparr>BlobInfo.Name = blobName,
                            BlobInfo.ContentType = ''application/octet-stream'',
                            BlobInfo.Size = int (length d),
                            BlobInfo.Metadata = Map.empty\<rparr>])))"

definition ListBlobs ::
  "FileBlobStore \<Rightarrow> string \<Rightarrow> string \<Rightarrow> string \<Rightarrow> int \<Rightarrow> store_error + BlobInfo list" where
  "ListBlobs s account containerName pfx maxResults =
     (let containerPath = containerPath s account containerName in
      case os_Stat (disk s) containerPath of
        Inl e \<Rightarrow>
          (if os_IsNotExist e then Inl (ContainerDoesNotExist containerName)
           else Inl (WalkError e))
      | Inr info \<Rightarrow> Inr (walkFn pfx maxResults (filepath_Walk info) []))"

subsection \<open>Sequences of calls\<close>

text \<open>
  A call of one of the seven methods, and the state it leaves behind, whether it fails or
  not. The three methods that only read leave the state as it is.
\<close>

datatype call =
    CallCreateContainer string string
  | CallDeleteContainer string string
  | CallContainerExists string string
  | CallPutBlob string string string "byte list" string "string \<rightharpoonup> string"
  | CallGetBlob string string string
  | CallDeleteBlob string string string
  | CallListBlobs string string string int

fun exec :: "FileBlobStore \<Rightarrow> call \<Rightarrow> FileBlobStore" where
  "exec s (CallCreateContainer a c) = snd (CreateContainer s a c)"
| "exec s (CallDeleteContainer a c) = snd (DeleteContainer s a c)"
| "exec s (CallContainerExists a c) = s"
| "exec s (CallPutBlob a c b content ct md) = snd (PutBlob s a c b content ct md)"
| "exec s (CallGetBlob a c b) = s"
| "exec s (CallDeleteBlob a c b) = snd (DeleteBlob s a c b)"
| "exec s (CallListBlobs a c pfx n) = s"

definition run :: "FileBlobStore \<Rightarrow> call list \<Rightarrow> FileBlobStore" where
  "run s calls = foldl exec s calls"

text \<open>
  Names that are one path element: not empty, no slash, neither \<^verbatim>\<open>.\<close> nor \<^verbatim>\<open>..\<close>. A blob
  name lies inside its container when the path it is joined to is strictly below the
  container's directory. A call is proper when its account and container are plain names
  and, for the two calls that change a blob, the blob name lies inside the container.
\<close>

definition plainName :: "string \<Rightarrow> bool" where
  "plainName x = (x \<noteq> [] \<and> CHR ''/'' \<notin> set x \<and> x \<noteq> ''.'' \<and> x \<noteq> ''..'')"

definition insideContainer :: "FileBlobStore \<Rightarrow> string \<Rightarrow> string \<Rightarrow> string \<Rightarrow> bool" where
  "insideContainer s a c b = strict_prefix (containerPath s a c) (blobPath s a c b)"

fun properCall :: "FileBlobStore \<Rightarrow> call \<Rightarrow> bool" where
  "properCall s (CallCreateContainer a c) = (plainName a \<and> plainName c)"
| "properCall s (CallDeleteContainer a c) = (plainName a \<and> plainName c)"
| "properCall s (CallContainerExists a c) = True"
| "properCall s (CallPutBlob a c b content ct md) =
     (plainName a \<and> plainName c \<and> insideContainer s a c b)"
| "properCall s (CallGetBlob a c b) = True"
| "properCall s (CallDeleteBlob a c b) =
     (plainName a \<and> plainName c \<and> insideContainer s a c b)"
| "properCall s (CallListBlobs a c pfx n) = True"

text \<open>
  The index matches the disk, for plain names: a container is in the index exactly when its
  path is a directory.
\<close>

definition indexMatchesDisk :: "FileBlobStore \<Rightarrow> bool" where
  "indexMatchesDisk s =
     (\<forall>a c. plainName a \<and> plainName c \<longrightarrow>
        (ContainerExists s a c \<longleftrightarrow> isDir (disk s) (containerPath s a c)))"

subsection \<open>Stores used in the examples\<close>

text \<open>
  The store made by \<^verbatim>\<open>NewFileBlobStore("./data")\<close> on an empty tree, used in the examples.
\<close>

definition freshStore :: FileBlobStore where
  "freshStore =
     \<lparr>baseDir = [''data'', ''blob''], containers = Map.empty,
      disk = [(''data'', Dir [(''blob'', Dir [])])]\<rparr>"

text \<open>
  A store started anew over a disk that already has a container's directory (its index is
  empty), and the fresh store after one blob was written with a content type and metadata.
\<close>

definition restartedStore :: FileBlobStore where
  "restartedStore =
     \<lparr>baseDir = [''data'', ''blob''], containers = Map.empty,
      disk = [(''data'', Dir [(''blob'', Dir [(''acct'', Dir [(''c1'', Dir [(''f.txt'', File [104, 105])])])])])]\<rparr>"

definition taggedStore :: FileBlobStore where
  "taggedStore =
     snd (PutBlob freshStore ''acct'' ''c1'' ''f.txt'' [104, 105] ''text/plain''
            [''author'' \<mapsto> ''me''])"

text \<open>The fresh store after the blob \<^verbatim>\<open>dir/f.txt\<close> was written.\<close>

definition dirStore :: FileBlobStore where
  "dirStore = snd (PutBlob freshStore ''acct'' ''c1'' ''dir/f.txt'' [104, 105] ''text/plain'' Map.empty)"

text \<open>A store started anew (its index is empty) over the disk that has that blob.\<close>

definition restartedDirStore :: FileBlobStore where
  "restartedDirStore =
     \<lparr>baseDir = [''data'', ''blob''], containers = Map.empty,
      disk = [(''data'', Dir [(''blob'', Dir [(''acct'', Dir [(''c1'', Dir [(''dir'', Dir [(''f.txt'', File [104, 105])])])])])])]\<rparr>"

text \<open>The fresh store after a blob was written under a name that leaves its container.\<close>

definition escapeStore :: FileBlobStore where
  "escapeStore = snd (PutBlob freshStore ''acct'' ''c1'' ''../d/x'' [7] ''text/plain'' Map.empty)"

text \<open>
  The fresh store after three blobs were written into one container, and after a blob was
  written under a name that puts a regular file where a container's directory would be.
\<close>

definition listStore :: FileBlobStore where
  "listStore =
     run freshStore
       [CallPutBlob ''acct'' ''c1'' ''a/y'' [7] ''text/plain'' Map.empty,
        CallPutBlob ''acct'' ''c1'' ''b/z'' [7, 8] ''text/plain'' Map.empty,
        CallPutBlob ''acct'' ''c1'' ''a/x'' [] ''text/plain'' Map.empty]"

definition fileStore :: FileBlobStore where
  "fileStore = snd (PutBlob freshStore ''acct'' ''c1'' ''../d'' [7] ''text/plain'' Map.empty)"

subsection \<open>What a listing is meant to contain\<close>

text \<open>
  The regular files a walk meets, each with its path relative to the root of the walk; the
  entry \<^verbatim>\<open>ListBlobs\<close> makes of one; and the prefix test on its name.
\<close>

definition filesOf :: "(path \<times> node) list \<Rightarrow> (path \<times> byte list) list" where
  "filesOf visits =
     concat (map (\<lambda>(rel, m). case m of File d \<Rightarrow> [(rel, d)] | Dir ds \<Rightarrow> []) visits)"

definition regularFiles :: "node \<Rightarrow> (path \<times> byte list) list" where
  "regularFiles n = filesOf (filepath_Walk n)"

definition entryOf :: "path \<times> byte list \<Rightarrow> BlobInfo" where
  "entryOf f =
     \<lparr>BlobInfo.Name = filepath_Rel (fst f),
      BlobInfo.ContentType = ''application/octet-stream'',
      BlobInfo.Size = int (length (snd f)),
      BlobInfo.Metadata = Map.empty\<rparr>"

definition matching :: "string \<Rightarrow> path \<times> byte list \<Rightarrow> bool" where
  "matching pfx f = (pfx = [] \<or> prefix pfx (filepath_Rel (fst f)))"

subsection \<open>The request handlers\<close>

text \<open>
  The handlers of \<^verbatim>\<open>BlobService\<close>, from the decoded request (the URL parameters, the body, the
  header and query values the handler reads) to the status code and body they write and the
  state of the store afterwards. Logging and the response headers are left out. The text of
  an error of package \<^verbatim>\<open>os\<close> (operation, path and cause) is made by the Go runtime; it is the
  parameter \<open>osText\<close>, of which nothing is assumed: a handler makes one call of the engine, and
  whatever text the error of that call has, with the path in it, is the value of some
  \<open>osText\<close>.
\<close>

fun Error :: "(errno \<Rightarrow> string) \<Rightarrow> store_error \<Rightarrow> string" where
  "Error osText (ContainerAlreadyExists n) = ''container '' @ n @ '' already exists''"
| "Error osText (ContainerDoesNotExist n) = ''container '' @ n @ '' does not exist''"
| "Error osText (BlobDoesNotExist n) = ''blob '' @ n @ '' does not exist''"
| "Error osText (Failed msg e) = msg @ '': '' @ osText e"
| "Error osText (WalkError e) = osText e"

definition strings_Contains :: "string \<Rightarrow> string \<Rightarrow> bool" where
  "strings_Contains s substr = sublist substr s"

record BlobListResult =
  Blobs :: "BlobInfo list"
  Prefix :: string
  MaxResults :: int

datatype body =
    ErrorBody string string
  | Text string
  | Bytes "byte list"
  | Json BlobListResult
  | NoBody

record response =
  statusCode :: nat
  written :: body

definition writeError :: "nat \<Rightarrow> string \<Rightarrow> string \<Rightarrow> response" where
  "writeError status code message = \<lparr>statusCode = status, written = ErrorBody code message\<rparr>"

definition handleCreateContainer ::
  "(errno \<Rightarrow> string) \<Rightarrow> FileBlobStore \<Rightarrow> string \<Rightarrow> string \<Rightarrow> response \<times> FileBlobStore" where
  "handleCreateContainer osText s account containerName =
     (if account = [] \<or> containerName = [] then
        (writeError 400 ''InvalidRequest'' ''Account and container name are required'', s)
      else
        (case CreateContainer s account containerName of
           (Some err, s') \<Rightarrow>
             (if strings_Contains (Error osText err) ''already exists'' then
                (writeError 409 ''ContainerAlreadyExists'' (Error osText err), s')
              else (writeError 500 ''InternalError'' ''Failed to create container'', s'))
         | (None, s') \<Rightarrow>
             (\<lparr>statusCode = 201,
               written = Text (''Container '' @ containerName @ '' created successfully'')\<rparr>, s')))"

definition handleDeleteContainer ::
  "(errno \<Rightarrow> string) \<Rightarrow> FileBlobStore \<Rightarrow> string \<Rightarrow> string \<Rightarrow> response \<times> FileBlobStore" where
  "handleDeleteContainer osText s account containerName =
     (if account = [] \<or> containerName = [] then
        (writeError 400 ''InvalidRequest'' ''Account and container name are required'', s)
      else
        (case DeleteContainer s account containerName of
           (Some err, s') \<Rightarrow>
             (if strings_Contains (Error osText err) ''does not exist'' then
                (writeError 404 ''ContainerNotFound'' (Error osText err), s')
              else (writeError 500 ''InternalError'' ''Failed to delete container'', s'))
         | (None, s') \<Rightarrow> (\<lparr>statusCode = 204, written = NoBody\<rparr>, s')))"

definition handlePutBlob ::
  "(errno \<Rightarrow> string) \<Rightarrow> FileBlobStore \<Rightarrow> string \<Rightarrow> string \<Rightarrow> string \<Rightarrow> byte list \<Rightarrow> string
     \<Rightarrow> (string \<rightharpoonup> string) \<Rightarrow> response \<times> FileBlobStore" where
  "handlePutBlob osText s account containerName blobName content contentTypeHeader metadata =
     (if account = [] \<or> containerName = [] \<or> blobName = [] then
        (writeError 400 ''InvalidRequest'' ''Account, container, and blob name are required'', s)
      else
        (let contentType =
               (if contentTypeHeader = [] then ''application/octet-stream'' else contentTypeHeader)
         in case PutBlob s account containerName blobName content contentType metadata of
              (Some err, s') \<Rightarrow> (writeError 500 ''InternalError'' ''Failed to upload blob'', s')
            | (None, s') \<Rightarrow>
                (\<lparr>statusCode = 201,
                  written = Text (''Blob '' @ blobName @ '' uploaded successfully'')\<rparr>, s')))"

definition handleGetBlob ::
  "(errno \<Rightarrow> string) \<Rightarrow> FileBlobStore \<Rightarrow> string \<Rightarrow> string \<Rightarrow> string \<Rightarrow> response" where
  "handleGetBlob osText s account containerName blobName =
     (if account = [] \<or> containerName = [] \<or> blobName = [] then
        writeError 400 ''InvalidRequest'' ''Account, container, and blob name are required''
      else
        (case GetBlob s account containerName blobName of
           Inl err \<Rightarrow>
             (if strings_Contains (Error osText err) ''does not exist'' then
                writeError 404 ''BlobNotFound'' (Error osText err)
              else writeError 500 ''InternalError'' ''Failed to retrieve blob'')
         | Inr blob \<Rightarrow> \<lparr>statusCode = 200, written = Bytes (Content blob)\<rparr>))"

definition handleDeleteBlob ::
  "(errno \<Rightarrow> string) \<Rightarrow> FileBlobStore \<Rightarrow> string \<Rightarrow> string \<Rightarrow> string \<Rightarrow> response \<times> FileBlobStore" where
  "handleDeleteBlob osText s account containerName blobName =
     (if account = [] \<or> containerName = [] \<or> blobName = [] then
        (writeError 400 ''InvalidRequest'' ''Account, container, and blob name are required'', s)
      else
        (case DeleteBlob s account containerName blobName of
           (Some err, s') \<Rightarrow>
             (if strings_Contains (Error osText err) ''does not exist'' then
                (writeError 404 ''BlobNotFound'' (Error osText err), s')
              else (writeError 500 ''InternalError'' ''Failed to delete blob'', s'))
         | (None, s') \<Rightarrow> (\<lparr>statusCode = 204, written = NoBody\<rparr>, s')))"

text \<open>
  \<open>maxresults\<close> is the query value after \<^verbatim>\<open>strconv.Atoi\<close>: \<open>None\<close> when it is absent or not a
  number.
\<close>

definition handleListBlobs ::
  "(errno \<Rightarrow> string) \<Rightarrow> FileBlobStore \<Rightarrow> string \<Rightarrow> string \<Rightarrow> string \<Rightarrow> int option \<Rightarrow> response" where
  "handleListBlobs osText s account containerName pfx maxresults =
     (if account = [] \<or> containerName = [] then
        writeError 400 ''InvalidRequest'' ''Account and container name are required''
      else
        (let maxResults = (case maxresults of None \<Rightarrow> 0 | Some val \<Rightarrow> if val > 0 then val else 0)
         in case ListBlobs s account containerName pfx maxResults of
              Inl err \<Rightarrow>
                (if strings_Contains (Error osText err) ''does not exist'' then
                   writeError 404 ''ContainerNotFound'' (Error osText err)
                 else writeError 500 ''InternalError'' ''Failed to list blobs'')
            | Inr blobs \<Rightarrow>
                \<lparr>statusCode = 200,
                 written = Json \<lparr>Blobs = blobs, Prefix = pfx, MaxResults = maxResults\<rparr>\<rparr>))"

section \<open>Properties\<close>

subsection \<open>Facts about the directory tree\<close>

text \<open>
  What each call of package \<^verbatim>\<open>os\<close> changes, seen through \<^const>\<open>statInfo\<close>: the path it is
  given, and nothing that is not below it. Each fact is proved for the path walk
  (\<^const>\<open>lookInfo\<close>) first and then for the call with its check for NUL bytes.
\<close>

lemma update_same: "map_of es x = Some v \<Longrightarrow> AList.update x v es = es"
  by (induction es) (auto split: if_splits)

lemma nulIn_simps [simp]:
  "nulIn [] = False"
  "nulIn (x # xs) = (hasNUL x \<or> nulIn xs)"
  "nulIn (p @ q) = (nulIn p \<or> nulIn q)"
  by (simp_all add: nulIn_def)

lemma nulIn_prefix: "prefix q p \<Longrightarrow> nulIn q \<Longrightarrow> nulIn p"
  by (auto simp: prefix_def)

lemma nulIn_butlast: "nulIn (butlast p) \<Longrightarrow> nulIn p"
  by (cases p rule: rev_cases) auto

lemma tooLong_prefix: "prefix q p \<Longrightarrow> list_ex tooLong q \<Longrightarrow> list_ex tooLong p"
  by (auto simp: prefix_def)

lemma statInfo_lookInfo: "statInfo es p = (if nulIn p then Inl EINVAL else lookInfo es p)"
  by (simp add: statInfo_def lookInfo_def os_Stat_def)

lemma lookInfo_Nil [simp]: "lookInfo es [] = Inr None"
  by (simp add: lookInfo_def)

lemma statInfo_Nil [simp]: "statInfo es [] = Inr None"
  by (simp add: statInfo_lookInfo)

lemma lookInfo_Cons:
  "lookInfo es (x # xs) =
     (if tooLong x then Inl ENAMETOOLONG
      else
        (case map_of es x of
           None \<Rightarrow> Inl ENOENT
         | Some (File d) \<Rightarrow> (if xs = [] then Inr (Some d) else Inl ENOTDIR)
         | Some (Dir ds) \<Rightarrow> lookInfo ds xs))"
  by (simp add: lookInfo_def split: option.splits node.splits)

lemma lookInfo_empty: "lookInfo [] (x # xs) = Inl (if tooLong x then ENAMETOOLONG else ENOENT)"
  by (simp add: lookInfo_Cons)

lemma lookInfo_empty_Inr: "lookInfo [] q = Inr v \<longleftrightarrow> q = [] \<and> v = None"
  by (cases q) (auto simp: lookInfo_empty)

lemma lookInfo_update:
  "lookInfo (AList.update x n es) (y # ys) =
     (if y = x then
        (if tooLong x then Inl ENAMETOOLONG
         else
           (case n of
              File d \<Rightarrow> (if ys = [] then Inr (Some d) else Inl ENOTDIR)
            | Dir ds \<Rightarrow> lookInfo ds ys))
      else lookInfo es (y # ys))"
  by (simp add: lookInfo_Cons update_conv')

lemma lookInfo_delete:
  "lookInfo (AList.delete x es) (y # ys) =
     (if y = x then Inl (if tooLong x then ENAMETOOLONG else ENOENT) else lookInfo es (y # ys))"
  by (simp add: lookInfo_Cons delete_conv')

lemma isDir_statInfo: "isDir es p \<longleftrightarrow> statInfo es p = Inr None"
  by (simp add: isDir_def statInfo_def split: sum.splits node.splits)

lemma isFile_statInfo: "isFile es p \<longleftrightarrow> (\<exists>d. statInfo es p = Inr (Some d))"
  by (simp add: isFile_def statInfo_def split: sum.splits node.splits)

lemma stat_File_statInfo: "os_Stat es p = Inr (File d) \<longleftrightarrow> statInfo es p = Inr (Some d)"
  by (simp add: statInfo_def split: sum.splits node.splits)

lemma stat_Inl_statInfo: "os_Stat es p = Inl e \<longleftrightarrow> statInfo es p = Inl e"
  by (simp add: statInfo_def split: sum.splits node.splits)

lemma stat_Inr_statInfo: "(\<exists>n. os_Stat es p = Inr n) \<longleftrightarrow> (\<exists>v. statInfo es p = Inr v)"
  by (simp add: statInfo_def split: sum.splits node.splits)

lemma readFile_statInfo:
  "os_ReadFile es p =
     (case statInfo es p of Inl e \<Rightarrow> Inl e | Inr None \<Rightarrow> Inl EISDIR | Inr (Some d) \<Rightarrow> Inr d)"
  by (simp add: os_ReadFile_def statInfo_def split: sum.splits node.splits)

lemma lookInfo_short: "lookInfo es p = Inr v \<Longrightarrow> \<not> list_ex tooLong p"
proof (induction p arbitrary: es)
  case Nil
  then show ?case by simp
next
  case (Cons x xs)
  then show ?case
    by (auto simp: lookInfo_Cons split: if_splits option.splits node.splits)
qed

lemma statInfo_valid: "statInfo es p = Inr v \<Longrightarrow> \<not> nulIn p \<and> \<not> list_ex tooLong p"
  by (auto simp: statInfo_lookInfo lookInfo_short split: if_splits)

lemma lookupPath_append_Dir:
  "lookupPath es p = Inr (Dir ds) \<Longrightarrow> lookupPath es (p @ r) = lookupPath ds r"
  by (induction es p rule: lookupPath.induct) (auto split: option.splits node.splits if_splits)

lemma stat_append_Dir: "os_Stat es p = Inr (Dir ds) \<Longrightarrow> os_Stat es (p @ r) = os_Stat ds r"
  by (auto simp: os_Stat_def lookupPath_append_Dir split: if_splits)

lemma statInfo_append_Dir:
  "os_Stat es p = Inr (Dir ds) \<Longrightarrow> statInfo es (p @ r) = statInfo ds r"
  by (simp add: statInfo_def stat_append_Dir)

lemma os_Stat_Cons:
  "os_Stat es (x # xs) =
     (if hasNUL x \<or> nulIn xs then Inl EINVAL
      else if tooLong x then Inl ENAMETOOLONG
      else
        (case map_of es x of
           None \<Rightarrow> Inl ENOENT
         | Some (File d) \<Rightarrow> (if xs = [] then Inr (File d) else Inl ENOTDIR)
         | Some (Dir ds) \<Rightarrow> os_Stat ds xs))"
  by (simp add: os_Stat_def split: option.splits node.splits)

text \<open>\<^verbatim>\<open>os.MkdirAll\<close>\<close>

lemma mkdirAll_Cons:
  assumes "os_MkdirAll es (x # xs) = (e, es')"
  obtains (stop) "es' = es" and "e \<noteq> None"
    and "hasNUL x \<or> tooLong x \<or> (\<exists>d. map_of es x = Some (File d))"
  | (step) ds ds' where "\<not> hasNUL x" and "\<not> tooLong x" and "os_MkdirAll ds xs = (e, ds')"
    and "es' = AList.update x (Dir ds') es"
    and "map_of es x = None \<and> ds = [] \<or> map_of es x = Some (Dir ds)"
  using assms by (auto split: if_splits option.splits node.splits prod.splits)

lemma lookInfo_step:
  "\<not> tooLong x \<Longrightarrow> map_of es x = None \<and> ds = [] \<or> map_of es x = Some (Dir ds)
   \<Longrightarrow> lookInfo es (x # ys) = (if map_of es x = None then Inl ENOENT else lookInfo ds ys)"
  by (auto simp: lookInfo_Cons)

lemma mkdirAll_valid: "os_MkdirAll es p = (None, es') \<Longrightarrow> \<not> nulIn p \<and> \<not> list_ex tooLong p"
proof (induction p arbitrary: es es')
  case Nil
  then show ?case by simp
next
  case (Cons x xs)
  from Cons.prems show ?case
  proof (cases rule: mkdirAll_Cons)
    case stop
    then show ?thesis by simp
  next
    case (step ds ds')
    with Cons.IH[OF step(3)] show ?thesis by simp
  qed
qed

lemma mkdirAll_look_prefix:
  "os_MkdirAll es p = (None, es') \<Longrightarrow> prefix q p \<Longrightarrow> lookInfo es' q = Inr None"
proof (induction p arbitrary: es es' q)
  case Nil
  then show ?case by simp
next
  case (Cons x xs)
  show ?case
  proof (cases q)
    case Nil
    then show ?thesis by simp
  next
    case q: (Cons y ys)
    with Cons.prems have y: "y = x" and ys: "prefix ys xs" by auto
    from Cons.prems(1) show ?thesis
    proof (cases rule: mkdirAll_Cons)
      case stop
      then show ?thesis by simp
    next
      case (step ds ds')
      from Cons.IH[OF step(3) ys] show ?thesis
        by (simp add: q y step lookInfo_update)
    qed
  qed
qed

lemma mkdirAll_prefix:
  "os_MkdirAll es p = (None, es') \<Longrightarrow> prefix q p \<Longrightarrow> statInfo es' q = Inr None"
  using mkdirAll_valid[of es p es'] nulIn_prefix[of q p]
  by (auto simp: statInfo_lookInfo mkdirAll_look_prefix)

lemma mkdirAll_look_other:
  "os_MkdirAll es p = (e, es') \<Longrightarrow> \<not> prefix q p
   \<Longrightarrow> lookInfo es' q = Inr v \<longleftrightarrow> lookInfo es q = Inr v"
proof (induction p arbitrary: es es' q)
  case Nil
  then show ?case by simp
next
  case (Cons x xs)
  from Cons.prems obtain y ys where q: "q = y # ys" by (cases q) auto
  from Cons.prems(1) show ?case
  proof (cases rule: mkdirAll_Cons)
    case stop
    then show ?thesis by simp
  next
    case (step ds ds')
    show ?thesis
    proof (cases "y = x")
      case False
      then show ?thesis by (simp add: q step lookInfo_update)
    next
      case True
      with Cons.prems q have ys: "\<not> prefix ys xs" by simp
      then have ne: "ys \<noteq> []" by auto
      from Cons.IH[OF step(3) ys]
      have "lookInfo ds' ys = Inr v \<longleftrightarrow> lookInfo ds ys = Inr v" .
      moreover have "lookInfo es' (x # ys) = lookInfo ds' ys"
        by (simp add: step lookInfo_update)
      moreover have "lookInfo es (x # ys) = Inr v \<longleftrightarrow> lookInfo ds ys = Inr v"
        using step(2,5) ne by (auto simp: lookInfo_Cons lookInfo_empty_Inr)
      ultimately show ?thesis by (simp add: q True)
    qed
  qed
qed

lemma mkdirAll_other:
  "os_MkdirAll es p = (e, es') \<Longrightarrow> \<not> prefix q p
   \<Longrightarrow> statInfo es' q = Inr v \<longleftrightarrow> statInfo es q = Inr v"
  by (simp add: statInfo_lookInfo mkdirAll_look_other)

lemma mkdirAll_look_files:
  "os_MkdirAll es p = (e, es') \<Longrightarrow> lookInfo es' q = Inr (Some d) \<longleftrightarrow> lookInfo es q = Inr (Some d)"
proof (induction p arbitrary: es es' q)
  case Nil
  then show ?case by simp
next
  case (Cons x xs)
  from Cons.prems(1) show ?case
  proof (cases rule: mkdirAll_Cons)
    case stop
    then show ?thesis by simp
  next
    case (step ds ds')
    show ?thesis
    proof (cases q)
      case Nil
      then show ?thesis by simp
    next
      case q: (Cons y ys)
      show ?thesis
      proof (cases "y = x")
        case False
        then show ?thesis by (simp add: q step lookInfo_update)
      next
        case True
        from Cons.IH[OF step(3)]
        have "lookInfo ds' ys = Inr (Some d) \<longleftrightarrow> lookInfo ds ys = Inr (Some d)" .
        moreover have "lookInfo es' (x # ys) = lookInfo ds' ys"
          by (simp add: step lookInfo_update)
        moreover have "lookInfo es (x # ys) = Inr (Some d) \<longleftrightarrow> lookInfo ds ys = Inr (Some d)"
          using step(2,5) by (auto simp: lookInfo_Cons lookInfo_empty_Inr)
        ultimately show ?thesis by (simp add: q True)
      qed
    qed
  qed
qed

lemma mkdirAll_files:
  "os_MkdirAll es p = (e, es') \<Longrightarrow> statInfo es' q = Inr (Some d) \<longleftrightarrow> statInfo es q = Inr (Some d)"
  by (simp add: statInfo_lookInfo mkdirAll_look_files)

lemma mkdirAll_look_dirs:
  "os_MkdirAll es p = (e, es') \<Longrightarrow> lookInfo es q = Inr None \<Longrightarrow> lookInfo es' q = Inr None"
proof (induction p arbitrary: es es' q)
  case Nil
  then show ?case by simp
next
  case (Cons x xs)
  from Cons.prems(1) show ?case
  proof (cases rule: mkdirAll_Cons)
    case stop
    with Cons.prems show ?thesis by simp
  next
    case (step ds ds')
    show ?thesis
    proof (cases q)
      case Nil
      then show ?thesis by simp
    next
      case q: (Cons y ys)
      show ?thesis
      proof (cases "y = x")
        case False
        with Cons.prems(2) show ?thesis by (simp add: q step lookInfo_update)
      next
        case True
        from Cons.prems(2) step(2,5) have "lookInfo ds ys = Inr None"
          by (auto simp: q True lookInfo_Cons)
        from Cons.IH[OF step(3) this] show ?thesis
          by (simp add: q True step lookInfo_update)
      qed
    qed
  qed
qed

lemma mkdirAll_dirs:
  "os_MkdirAll es p = (e, es') \<Longrightarrow> statInfo es q = Inr None \<Longrightarrow> statInfo es' q = Inr None"
  by (auto simp: statInfo_lookInfo mkdirAll_look_dirs split: if_splits)

lemma mkdirAll_look_isDir:
  "\<not> nulIn p \<Longrightarrow> lookInfo es p = Inr None \<Longrightarrow> os_MkdirAll es p = (None, es)"
proof (induction p arbitrary: es)
  case Nil
  then show ?case by simp
next
  case (Cons x xs)
  then show ?case
    by (auto simp: lookInfo_Cons update_same split: option.splits node.splits if_splits)
qed

lemma mkdirAll_isDir: "statInfo es p = Inr None \<Longrightarrow> os_MkdirAll es p = (None, es)"
  by (auto simp: statInfo_lookInfo mkdirAll_look_isDir split: if_splits)

lemma mkdirAll_look_fails:
  "os_MkdirAll es p = (Some e, es') \<Longrightarrow> \<not> nulIn p \<Longrightarrow> lookInfo es' p \<noteq> Inr None"
proof (induction p arbitrary: es es')
  case Nil
  then show ?case by simp
next
  case (Cons x xs)
  from Cons.prems(1) show ?case
  proof (cases rule: mkdirAll_Cons)
    case stop
    with Cons.prems(2) show ?thesis by (auto simp: lookInfo_Cons split: if_splits)
  next
    case (step ds ds')
    from Cons.IH[OF step(3)] Cons.prems(2) show ?thesis
      by (simp add: step lookInfo_update)
  qed
qed

lemma mkdirAll_fails_not_dir: "os_MkdirAll es p = (Some e, es') \<Longrightarrow> statInfo es' p \<noteq> Inr None"
  by (auto simp: statInfo_lookInfo mkdirAll_look_fails)

lemma mkdirAll_empty: "os_MkdirAll [] p = (None, es') \<Longrightarrow> lookupPath es' p = Inr (Dir [])"
proof (induction p arbitrary: es')
  case Nil
  then show ?case by simp
next
  case (Cons x xs)
  from Cons.prems show ?case
  proof (cases rule: mkdirAll_Cons)
    case stop
    then show ?thesis by simp
  next
    case (step ds ds')
    then have "ds = []" by simp
    with Cons.IH[of ds'] step show ?thesis by simp
  qed
qed

lemma mkdirAll_look_absent:
  "lookInfo es p = Inl ENOENT \<Longrightarrow> os_MkdirAll es p = (None, es')
   \<Longrightarrow> lookupPath es' p = Inr (Dir [])"
proof (induction p arbitrary: es es')
  case Nil
  then show ?case by simp
next
  case (Cons x xs)
  from Cons.prems(2) show ?case
  proof (cases rule: mkdirAll_Cons)
    case stop
    then show ?thesis by simp
  next
    case (step ds ds')
    show ?thesis
    proof (cases "map_of es x")
      case None
      with step have "os_MkdirAll [] xs = (None, ds')" by simp
      from mkdirAll_empty[OF this] show ?thesis
        by (simp add: step update_conv')
    next
      case (Some n)
      with step(5) have n: "map_of es x = Some (Dir ds)" by simp
      with Cons.prems(1) step(2) have "lookInfo ds xs = Inl ENOENT"
        by (simp add: lookInfo_Cons)
      from Cons.IH[OF this step(3)] show ?thesis
        by (simp add: step update_conv')
    qed
  qed
qed

lemma mkdirAll_absent:
  "statInfo es p = Inl ENOENT \<Longrightarrow> os_MkdirAll es p = (None, es')
   \<Longrightarrow> os_Stat es' p = Inr (Dir [])"
  by (auto simp: statInfo_lookInfo os_Stat_def mkdirAll_look_absent split: if_splits)

lemma mkdirAll_fails:
  "os_MkdirAll es p = (Some e, es')
   \<Longrightarrow> nulIn p \<or> list_ex tooLong p \<or> (\<exists>q d. prefix q p \<and> lookInfo es q = Inr (Some d))"
proof (induction p arbitrary: es es')
  case Nil
  then show ?case by simp
next
  case (Cons x xs)
  from Cons.prems show ?case
  proof (cases rule: mkdirAll_Cons)
    case stop
    show ?thesis
    proof (cases "hasNUL x \<or> tooLong x")
      case True
      then show ?thesis by auto
    next
      case False
      with stop(3) obtain d where "map_of es x = Some (File d)" by auto
      with False have "prefix [x] (x # xs)" "lookInfo es [x] = Inr (Some d)"
        by (simp_all add: lookInfo_Cons)
      then show ?thesis by blast
    qed
  next
    case (step ds ds')
    from Cons.IH[OF step(3)] consider "nulIn xs \<or> list_ex tooLong xs"
      | q d where "prefix q xs" "lookInfo ds q = Inr (Some d)" by blast
    then show ?thesis
    proof cases
      case 1
      then show ?thesis by auto
    next
      case 2
      with step(2,5) have "prefix (x # q) (x # xs)" "lookInfo es (x # q) = Inr (Some d)"
        by (auto simp: lookInfo_Cons lookInfo_empty_Inr)
      then show ?thesis by blast
    qed
  qed
qed

lemma mkdirAll_ok:
  assumes "\<not> nulIn p" and "\<not> list_ex tooLong p"
    and "\<And>q. prefix q p \<Longrightarrow> \<not> isFile es q"
  shows "\<exists>es'. os_MkdirAll es p = (None, es')"
proof (cases "os_MkdirAll es p")
  case (Pair e es')
  show ?thesis
  proof (cases e)
    case None
    with Pair show ?thesis by simp
  next
    case (Some err)
    with Pair mkdirAll_fails[of es p err es'] assms(1,2)
    obtain q d where q: "prefix q p" "lookInfo es q = Inr (Some d)" by auto
    from q(1) assms(1) have "\<not> nulIn q" using nulIn_prefix by blast
    with q(2) have "isFile es q" by (auto simp: isFile_statInfo statInfo_lookInfo)
    with assms(3)[OF q(1)] show ?thesis by simp
  qed
qed

text \<open>\<^verbatim>\<open>os.WriteFile\<close>\<close>

lemma writeAt_Cons2:
  assumes "writeAt es (x # y # ys) d = Inr es'"
  obtains ds ds' where "\<not> tooLong x" and "map_of es x = Some (Dir ds)"
    and "writeAt ds (y # ys) d = Inr ds'" and "es' = AList.update x (Dir ds') es"
  using assms by (auto split: if_splits option.splits node.splits sum.splits)

lemma writeAt_same: "writeAt es p d = Inr es' \<Longrightarrow> lookInfo es' p = Inr (Some d)"
proof (induction es p d arbitrary: es' rule: writeAt.induct)
  case (1 es content)
  then show ?case by simp
next
  case (2 es x content)
  then show ?case by (auto simp: lookInfo_update split: if_splits option.splits node.splits)
next
  case (3 es x y ys content)
  from "3.prems" obtain ds ds' where nl: "\<not> tooLong x" and m: "map_of es x = Some (Dir ds)"
    and w: "writeAt ds (y # ys) content = Inr ds'" and es': "es' = AList.update x (Dir ds') es"
    by (rule writeAt_Cons2)
  from "3.IH"[OF nl m refl w] show ?case by (simp add: es' nl lookInfo_update)
qed

lemma writeFile_same: "os_WriteFile es p d = Inr es' \<Longrightarrow> statInfo es' p = Inr (Some d)"
  by (auto simp: os_WriteFile_def statInfo_lookInfo writeAt_same split: if_splits)

lemma writeAt_other:
  "writeAt es p d = Inr es' \<Longrightarrow> \<not> prefix p q \<Longrightarrow> lookInfo es' q = lookInfo es q"
proof (induction es p d arbitrary: es' q rule: writeAt.induct)
  case (1 es content)
  then show ?case by simp
next
  case (2 es x content)
  then show ?case
    by (cases q) (auto simp: lookInfo_update split: if_splits option.splits node.splits)
next
  case (3 es x y ys content)
  from "3.prems"(1) obtain ds ds' where nl: "\<not> tooLong x" and m: "map_of es x = Some (Dir ds)"
    and w: "writeAt ds (y # ys) content = Inr ds'" and es': "es' = AList.update x (Dir ds') es"
    by (rule writeAt_Cons2)
  show ?case
  proof (cases q)
    case Nil
    then show ?thesis by simp
  next
    case (Cons z zs)
    show ?thesis
    proof (cases "z = x")
      case False
      then show ?thesis by (simp add: Cons es' lookInfo_update)
    next
      case True
      with "3.prems" Cons have zs: "\<not> prefix (y # ys) zs" by simp
      from "3.IH"[OF nl m refl w zs] show ?thesis
        using m nl by (simp add: Cons True es' lookInfo_Cons update_conv')
    qed
  qed
qed

lemma writeFile_other:
  "os_WriteFile es p d = Inr es' \<Longrightarrow> \<not> prefix p q \<Longrightarrow> statInfo es' q = statInfo es q"
  by (auto simp: os_WriteFile_def statInfo_lookInfo writeAt_other split: if_splits)

lemma writeAt_ok:
  "p \<noteq> [] \<Longrightarrow> \<not> tooLong (last p) \<Longrightarrow> lookInfo es (butlast p) = Inr None
   \<Longrightarrow> lookInfo es p \<noteq> Inr None \<Longrightarrow> \<exists>es'. writeAt es p d = Inr es'"
proof (induction es p d rule: writeAt.induct)
  case (1 es content)
  then show ?case by simp
next
  case (2 es x content)
  then show ?case by (auto simp: lookInfo_Cons split: option.splits node.splits)
next
  case (3 es x y ys content)
  from "3.prems"(3) obtain ds where nl: "\<not> tooLong x" and m: "map_of es x = Some (Dir ds)"
    and d: "lookInfo ds (butlast (y # ys)) = Inr None"
    by (auto simp: lookInfo_Cons split: option.splits node.splits if_splits)
  from "3.prems"(4) m nl have nd: "lookInfo ds (y # ys) \<noteq> Inr None" by (simp add: lookInfo_Cons)
  from "3.prems"(2) have l: "\<not> tooLong (last (y # ys))" by simp
  from "3.IH"[OF nl m refl _ l d nd] show ?case using m nl by auto
qed

lemma writeFile_ok:
  assumes "p \<noteq> []" and "\<not> nulIn p" and "\<not> tooLong (last p)"
    and "statInfo es (butlast p) = Inr None" and "statInfo es p \<noteq> Inr None"
  shows "\<exists>es'. os_WriteFile es p d = Inr es'"
proof -
  from assms(2) have "\<not> nulIn (butlast p)" using nulIn_butlast by blast
  with assms show ?thesis
    using writeAt_ok[of p es d] by (simp add: os_WriteFile_def statInfo_lookInfo)
qed

lemma writeFile_over:
  assumes "statInfo es p = Inr (Some d0)" and "statInfo es (butlast p) = Inr None"
  shows "\<exists>es'. os_WriteFile es p d = Inr es'"
proof (rule writeFile_ok)
  from assms(1) show "p \<noteq> []" by auto
  from assms(1) show "\<not> nulIn p" using statInfo_valid by blast
  from assms(1) have "\<not> list_ex tooLong p" using statInfo_valid by blast
  with \<open>p \<noteq> []\<close> show "\<not> tooLong (last p)" by (auto simp: list_ex_iff)
  from assms(2) show "statInfo es (butlast p) = Inr None" .
  from assms(1) show "statInfo es p \<noteq> Inr None" by simp
qed

text \<open>\<^verbatim>\<open>os.Remove\<close>\<close>

lemma removeAt_Cons2:
  assumes "removeAt es (x # y # ys) = Inr es'"
  obtains ds ds' where "\<not> tooLong x" and "map_of es x = Some (Dir ds)"
    and "removeAt ds (y # ys) = Inr ds'" and "es' = AList.update x (Dir ds') es"
  using assms by (auto split: if_splits option.splits node.splits sum.splits)

lemma removeAt_ENOENT: "removeAt es p = Inl ENOENT \<longleftrightarrow> lookInfo es p = Inl ENOENT"
proof (induction es p rule: removeAt.induct)
  case (1 es)
  then show ?case by simp
next
  case (2 es x)
  then show ?case by (auto simp: lookInfo_Cons split: option.splits node.splits)
next
  case (3 es x y ys)
  show ?case
  proof (cases "tooLong x")
    case True
    then show ?thesis by (simp add: lookInfo_Cons)
  next
    case nl: False
    show ?thesis
    proof (cases "map_of es x")
      case None
      with nl show ?thesis by (simp add: lookInfo_Cons)
    next
      case (Some n)
      show ?thesis
      proof (cases n)
        case (File d)
        with Some nl show ?thesis by (simp add: lookInfo_Cons)
      next
        case (Dir ds)
        from "3.IH"[OF nl Some Dir]
        have "removeAt ds (y # ys) = Inl ENOENT \<longleftrightarrow> lookInfo ds (y # ys) = Inl ENOENT" .
        then show ?thesis
          using nl Some Dir by (auto simp: lookInfo_Cons[of es] split: sum.splits)
      qed
    qed
  qed
qed

lemma remove_ENOENT: "os_Remove es p = Inl ENOENT \<longleftrightarrow> statInfo es p = Inl ENOENT"
  by (simp add: os_Remove_def statInfo_lookInfo removeAt_ENOENT)

lemma removeAt_file: "lookInfo es p = Inr (Some d) \<Longrightarrow> \<exists>es'. removeAt es p = Inr es'"
  by (induction es p rule: removeAt.induct)
     (auto simp: lookInfo_Cons split: option.splits node.splits sum.splits if_splits)

lemma remove_file: "statInfo es p = Inr (Some d) \<Longrightarrow> \<exists>es'. os_Remove es p = Inr es'"
  by (auto simp: os_Remove_def statInfo_lookInfo removeAt_file split: if_splits)

lemma removeAt_gone: "removeAt es p = Inr es' \<Longrightarrow> lookInfo es' p = Inl ENOENT"
proof (induction es p arbitrary: es' rule: removeAt.induct)
  case (1 es)
  then show ?case by simp
next
  case (2 es x)
  then show ?case
    by (auto simp: lookInfo_delete split: option.splits node.splits if_splits)
next
  case (3 es x y ys)
  from "3.prems" obtain ds ds' where nl: "\<not> tooLong x" and m: "map_of es x = Some (Dir ds)"
    and w: "removeAt ds (y # ys) = Inr ds'" and es': "es' = AList.update x (Dir ds') es"
    by (rule removeAt_Cons2)
  from "3.IH"[OF nl m refl w] show ?case by (simp add: es' nl lookInfo_update)
qed

lemma remove_gone: "os_Remove es p = Inr es' \<Longrightarrow> statInfo es' p = Inl ENOENT"
  by (auto simp: os_Remove_def statInfo_lookInfo removeAt_gone split: if_splits)

lemma removeAt_other:
  "removeAt es p = Inr es' \<Longrightarrow> \<not> prefix p q \<Longrightarrow> lookInfo es' q = lookInfo es q"
proof (induction es p arbitrary: es' q rule: removeAt.induct)
  case (1 es)
  then show ?case by simp
next
  case (2 es x)
  then show ?case
    by (cases q) (auto simp: lookInfo_delete split: option.splits node.splits if_splits)
next
  case (3 es x y ys)
  from "3.prems"(1) obtain ds ds' where nl: "\<not> tooLong x" and m: "map_of es x = Some (Dir ds)"
    and w: "removeAt ds (y # ys) = Inr ds'" and es': "es' = AList.update x (Dir ds') es"
    by (rule removeAt_Cons2)
  show ?case
  proof (cases q)
    case Nil
    then show ?thesis by simp
  next
    case (Cons z zs)
    show ?thesis
    proof (cases "z = x")
      case False
      then show ?thesis by (simp add: Cons es' lookInfo_update)
    next
      case True
      with "3.prems" Cons have zs: "\<not> prefix (y # ys) zs" by simp
      from "3.IH"[OF nl m refl w zs] show ?thesis
        using m nl by (simp add: Cons True es' lookInfo_Cons update_conv')
    qed
  qed
qed

lemma remove_other:
  "os_Remove es p = Inr es' \<Longrightarrow> \<not> prefix p q \<Longrightarrow> statInfo es' q = statInfo es q"
  by (auto simp: os_Remove_def statInfo_lookInfo removeAt_other split: if_splits)

text \<open>\<^verbatim>\<open>os.RemoveAll\<close>\<close>

lemma removeAllAt_Cons2:
  assumes "removeAllAt es (x # y # ys) = (e, es')"
  obtains (toolong) "tooLong x" and "e = Some ENAMETOOLONG" and "es' = es"
  | (missing) "\<not> tooLong x" and "map_of es x = None" and "e = None" and "es' = es"
  | (regular) d where "\<not> tooLong x" and "map_of es x = Some (File d)" and "e = Some ENOTDIR"
      and "es' = es"
  | (step) ds ds' where "\<not> tooLong x" and "map_of es x = Some (Dir ds)"
      and "removeAllAt ds (y # ys) = (e, ds')" and "es' = AList.update x (Dir ds') es"
  using assms by (auto split: if_splits option.splits node.splits prod.splits)

lemma removeAllAt_below: "removeAllAt es p = (None, es') \<Longrightarrow> lookInfo es' (p @ r) = Inl ENOENT"
proof (induction es p arbitrary: es' rule: removeAllAt.induct)
  case (1 es)
  then show ?case by simp
next
  case (2 es x)
  then show ?case by (auto simp: lookInfo_delete split: if_splits)
next
  case (3 es x y ys)
  from "3.prems" show ?case
  proof (cases rule: removeAllAt_Cons2)
    case toolong
    then show ?thesis by simp
  next
    case missing
    then show ?thesis by (simp add: lookInfo_Cons)
  next
    case (regular d)
    then show ?thesis by simp
  next
    case (step ds ds')
    from "3.IH"[OF step(1) step(2) refl step(3)] show ?thesis
      by (simp add: step lookInfo_update)
  qed
qed

lemma removeAll_below:
  "os_RemoveAll es p = (None, es') \<Longrightarrow> \<not> nulIn (p @ r) \<Longrightarrow> statInfo es' (p @ r) = Inl ENOENT"
  by (auto simp: os_RemoveAll_def statInfo_lookInfo removeAllAt_below
      split: if_splits sum.splits)

lemma removeAll_nothing: "os_RemoveAll es p = (None, es') \<Longrightarrow> statInfo es' (p @ r) \<noteq> Inr v"
proof (cases "nulIn (p @ r)")
  case True
  then show ?thesis by (simp add: statInfo_lookInfo)
next
  case False
  assume "os_RemoveAll es p = (None, es')"
  from removeAll_below[OF this False] show ?thesis by simp
qed

lemma removeAllAt_other:
  "removeAllAt es p = (e, es') \<Longrightarrow> \<not> prefix p q \<Longrightarrow> lookInfo es' q = lookInfo es q"
proof (induction es p arbitrary: es' q rule: removeAllAt.induct)
  case (1 es)
  then show ?case by simp
next
  case (2 es x)
  then show ?case
    by (cases q) (auto simp: lookInfo_delete split: if_splits)
next
  case (3 es x y ys)
  from "3.prems"(1) show ?case
  proof (cases rule: removeAllAt_Cons2)
    case toolong
    then show ?thesis by simp
  next
    case missing
    then show ?thesis by simp
  next
    case (regular d)
    then show ?thesis by simp
  next
    case r: (step ds ds')
    show ?thesis
    proof (cases q)
      case Nil
      then show ?thesis by simp
    next
      case (Cons z zs)
      show ?thesis
      proof (cases "z = x")
        case False
        then show ?thesis by (simp add: Cons r lookInfo_update)
      next
        case True
        with "3.prems" Cons have zs: "\<not> prefix (y # ys) zs" by simp
        from "3.IH"[OF r(1) r(2) refl r(3) zs] show ?thesis
          using r(1,2) by (simp add: Cons True r(4) lookInfo_Cons update_conv')
      qed
    qed
  qed
qed

lemma removeAll_other:
  "os_RemoveAll es p = (e, es') \<Longrightarrow> \<not> prefix p q \<Longrightarrow> statInfo es' q = statInfo es q"
  by (auto simp: os_RemoveAll_def statInfo_lookInfo removeAllAt_other
      split: if_splits sum.splits)

lemma removeAllAt_error: "removeAllAt es p = (Some e, es') \<Longrightarrow> es' = es"
proof (induction es p arbitrary: es' rule: removeAllAt.induct)
  case (1 es)
  then show ?case by simp
next
  case (2 es x)
  then show ?case by (simp split: if_splits)
next
  case (3 es x y ys)
  from "3.prems"(1) show ?case
  proof (cases rule: removeAllAt_Cons2)
    case toolong
    then show ?thesis by simp
  next
    case missing
    then show ?thesis by simp
  next
    case (regular d)
    then show ?thesis by simp
  next
    case r: (step ds ds')
    from "3.IH"[OF r(1) r(2) refl r(3)] have "ds' = ds" .
    then show ?thesis using r by (simp add: update_same)
  qed
qed

lemma removeAll_error: "os_RemoveAll es p = (Some e, es') \<Longrightarrow> es' = es"
  by (auto simp: os_RemoveAll_def removeAllAt_error split: if_splits sum.splits)

subsection \<open>Facts about the engine\<close>

lemma has_upd [simp]: "has (m(k \<mapsto> True)) k' = (k' = k \<or> has m k')"
  by (simp add: has_def)

lemma has_del [simp]: "has (m(k := None)) k' = (k' \<noteq> k \<and> has m k')"
  by (simp add: has_def)

lemma not_prefix_butlast: "p \<noteq> [] \<Longrightarrow> \<not> prefix p (butlast p)"
proof
  assume "p \<noteq> []" and "prefix p (butlast p)"
  then have "length p \<le> length (butlast p)" by (intro prefix_length_le)
  with \<open>p \<noteq> []\<close> show False by (cases p rule: rev_cases) auto
qed

lemma containerPath_baseDir: "baseDir s' = baseDir s \<Longrightarrow> containerPath s' a c = containerPath s a c"
  by (simp add: containerPath_def)

lemma blobPath_baseDir: "baseDir s' = baseDir s \<Longrightarrow> blobPath s' a c b = blobPath s a c b"
  by (simp add: blobPath_def containerPath_def)

text \<open>\<^verbatim>\<open>PutBlob\<close>, branch by branch.\<close>

lemma PutBlob_unfold:
  "PutBlob s a c b content ct md =
     (if has (containers s) (containerKey a c) then
        (case os_MkdirAll (disk s) (filepath_Dir (blobPath s a c b)) of
           (Some e, d2) \<Rightarrow> (Some (Failed ''failed to create blob directory'' e), s\<lparr>disk := d2\<rparr>)
         | (None, d2) \<Rightarrow>
             (case os_WriteFile d2 (blobPath s a c b) content of
                Inl e \<Rightarrow> (Some (Failed ''failed to write blob'' e), s\<lparr>disk := d2\<rparr>)
              | Inr d3 \<Rightarrow> (None, s\<lparr>disk := d3\<rparr>)))
      else
        (case os_MkdirAll (disk s) (containerPath s a c) of
           (Some e, d1) \<Rightarrow>
             (Some (Failed ''failed to ensure container directory'' e), s\<lparr>disk := d1\<rparr>)
         | (None, d1) \<Rightarrow>
            (case os_MkdirAll d1 (filepath_Dir (blobPath s a c b)) of
               (Some e, d2) \<Rightarrow>
                 (Some (Failed ''failed to create blob directory'' e),
                  s\<lparr>disk := d2, containers := (containers s)(containerKey a c \<mapsto> True)\<rparr>)
             | (None, d2) \<Rightarrow>
                 (case os_WriteFile d2 (blobPath s a c b) content of
                    Inl e \<Rightarrow> (Some (Failed ''failed to write blob'' e),
                               s\<lparr>disk := d2, containers := (containers s)(containerKey a c \<mapsto> True)\<rparr>)
                  | Inr d3 \<Rightarrow> (None, s\<lparr>disk := d3, containers := (containers s)(containerKey a c \<mapsto> True)\<rparr>)))))"
proof (cases "has (containers s) (containerKey a c)")
  case True
  then show ?thesis by (simp add: PutBlob_def Let_def)
next
  case False
  obtain e1 d1 where mk1: "os_MkdirAll (disk s) (containerPath s a c) = (e1, d1)"
    by (cases "os_MkdirAll (disk s) (containerPath s a c)")
  show ?thesis
  proof (cases e1)
    case (Some err)
    with False mk1 show ?thesis by (simp add: PutBlob_def Let_def)
  next
    case None
    obtain e2 d2 where mk2: "os_MkdirAll d1 (filepath_Dir (blobPath s a c b)) = (e2, d2)"
      by (cases "os_MkdirAll d1 (filepath_Dir (blobPath s a c b))")
    from False mk1 None mk2 show ?thesis
      by (cases e2; cases "os_WriteFile d2 (blobPath s a c b) content")
         (simp_all add: PutBlob_def Let_def)
  qed
qed

lemma PutBlob_baseDir [simp]: "baseDir (snd (PutBlob s a c b content ct md)) = baseDir s"
  by (simp add: PutBlob_unfold split: sum.splits prod.splits option.splits)

lemma PutBlob_None_steps:
  assumes "fst (PutBlob s a c b content ct md) = None"
  obtains d2 d3 where "os_MkdirAll d2 (filepath_Dir (blobPath s a c b)) = (None, d2)"
    and "os_WriteFile d2 (blobPath s a c b) content = Inr d3"
    and "disk (snd (PutBlob s a c b content ct md)) = d3"
    and "has (containers (snd (PutBlob s a c b content ct md))) (containerKey a c)"
proof -
  have idem: "os_MkdirAll d p = (None, d2) \<Longrightarrow> os_MkdirAll d2 p = (None, d2)" for d p d2
    by (rule mkdirAll_isDir) (rule mkdirAll_prefix, assumption, simp)
  from assms show ?thesis
    by (auto simp: PutBlob_unfold split: sum.splits prod.splits option.splits if_splits
        intro: that dest: idem)
qed

lemma PutBlob_None_facts:
  assumes "fst (PutBlob s a c b content ct md) = None"
  shows "has (containers (snd (PutBlob s a c b content ct md))) (containerKey a c)"
    and "statInfo (disk (snd (PutBlob s a c b content ct md))) (blobPath s a c b) = Inr (Some content)"
    and "statInfo (disk (snd (PutBlob s a c b content ct md))) (filepath_Dir (blobPath s a c b)) = Inr None"
    and "blobPath s a c b \<noteq> []"
proof -
  from assms obtain d2 d3 where
    mk: "os_MkdirAll d2 (filepath_Dir (blobPath s a c b)) = (None, d2)"
    and wr: "os_WriteFile d2 (blobPath s a c b) content = Inr d3"
    and d: "disk (snd (PutBlob s a c b content ct md)) = d3"
    and h: "has (containers (snd (PutBlob s a c b content ct md))) (containerKey a c)"
    by (rule PutBlob_None_steps)
  show "has (containers (snd (PutBlob s a c b content ct md))) (containerKey a c)" by (rule h)
  from wr show "statInfo (disk (snd (PutBlob s a c b content ct md))) (blobPath s a c b) = Inr (Some content)"
    by (simp add: d writeFile_same)
  from wr show ne: "blobPath s a c b \<noteq> []" by (auto simp: os_WriteFile_def split: if_splits)
  then have "\<not> prefix (blobPath s a c b) (filepath_Dir (blobPath s a c b))"
    unfolding filepath_Dir_def by (rule not_prefix_butlast)
  from writeFile_other[OF wr this] mkdirAll_prefix[OF mk prefix_order.order_refl]
  show "statInfo (disk (snd (PutBlob s a c b content ct md))) (filepath_Dir (blobPath s a c b)) = Inr None"
    by (simp add: d)
qed

lemma GetBlob_file:
  "statInfo (disk s) (blobPath s a c b) = Inr (Some content)
   \<Longrightarrow> \<exists>blob. GetBlob s a c b = Inr blob \<and> Content blob = content"
  by (auto simp: GetBlob_def Let_def os_ReadFile_def statInfo_def os_IsNotExist_def
      split: sum.splits node.splits)

lemma walkFn_placeholders:
  "\<forall>i \<in> set results. BlobInfo.ContentType i = ''application/octet-stream'' \<and> BlobInfo.Metadata i = Map.empty
   \<Longrightarrow> \<forall>i \<in> set (walkFn pfx n visits results).
         BlobInfo.ContentType i = ''application/octet-stream'' \<and> BlobInfo.Metadata i = Map.empty"
  by (induction pfx n visits results rule: walkFn.induct) (auto simp: Let_def split: node.splits)

lemma GetBlob_NotFound:
  "failsWithL NotFound (GetBlob s a c b) \<longleftrightarrow> statInfo (disk s) (blobPath s a c b) = Inl ENOENT"
  by (auto simp: GetBlob_def Let_def failsWithL_def os_ReadFile_def statInfo_def os_IsNotExist_def
      split: sum.splits node.splits)

text \<open>
  Names the file system refuses: a blob whose path has a NUL byte cannot be read, and the
  error is not that of a missing file; a blob that was written has a path of valid names.
\<close>

lemma GetBlob_NUL:
  "nulIn (blobPath s a c b) \<Longrightarrow> GetBlob s a c b = Inl (Failed ''failed to read blob'' EINVAL)"
  by (simp add: GetBlob_def Let_def os_ReadFile_def os_Stat_def os_IsNotExist_def)

lemma PutBlob_None_valid:
  assumes "fst (PutBlob s a c b content ct md) = None"
  shows "\<not> nulIn (blobPath s a c b) \<and> \<not> list_ex tooLong (blobPath s a c b)"
  using PutBlob_None_facts(2)[OF assms] by (rule statInfo_valid)

lemma DeleteBlob_unfold:
  "DeleteBlob s a c b =
     (case os_Remove (disk s) (blobPath s a c b) of
        Inl e \<Rightarrow> (if e = ENOENT then (Some (BlobDoesNotExist b), s)
                  else (Some (Failed ''failed to delete blob'' e), s))
      | Inr d \<Rightarrow> (None, s\<lparr>disk := d\<rparr>))"
  by (simp add: DeleteBlob_def Let_def os_IsNotExist_def split: sum.splits)

lemma DeleteContainer_unfold:
  "DeleteContainer s a c =
     (if \<not> has (containers s) (containerKey a c) then (Some (ContainerDoesNotExist c), s)
      else
        (case os_RemoveAll (disk s) (containerPath s a c) of
           (Some e, d) \<Rightarrow> (Some (Failed ''failed to delete container directory'' e), s\<lparr>disk := d\<rparr>)
         | (None, d) \<Rightarrow> (None, s\<lparr>disk := d, containers := (containers s)(containerKey a c := None)\<rparr>)))"
  by (simp add: DeleteContainer_def Let_def)

lemma strict_prefix_butlast: "strict_prefix q p \<Longrightarrow> prefix q (butlast p)"
  by (cases p rule: rev_cases) (auto simp: strict_prefix_def)

lemma not_prefix_strict: "strict_prefix q p \<Longrightarrow> \<not> prefix p q"
  by (auto simp: strict_prefix_def)

lemma prefix_butlast_strict: "p \<noteq> [] \<Longrightarrow> prefix q (butlast p) \<Longrightarrow> strict_prefix q p"
  by (cases p rule: rev_cases) (auto simp: strict_prefix_def prefix_def)

lemma GetBlob_Inr:
  "GetBlob s a c b = Inr blob \<Longrightarrow> \<exists>d. statInfo (disk s) (blobPath s a c b) = Inr (Some d)"
  by (auto simp: GetBlob_def Let_def os_ReadFile_def statInfo_def
      split: sum.splits node.splits if_splits)

text \<open>
  Making the directories above a path and writing the file: the two calls succeed when the
  elements of the path are valid names, no regular file is above the path and the path is
  not a directory.
\<close>

lemma mkdir_write_ok:
  assumes ne: "p \<noteq> []" and nul: "\<not> nulIn p" and short: "\<not> list_ex tooLong p"
    and nofile: "\<And>q. strict_prefix q p \<Longrightarrow> \<not> isFile es q"
    and nodir: "statInfo es p \<noteq> Inr None"
  obtains es2 es3 where "os_MkdirAll es (butlast p) = (None, es2)"
    and "os_WriteFile es2 p d = Inr es3"
proof -
  have "\<not> nulIn (butlast p)" using nul nulIn_butlast by blast
  moreover have "\<not> list_ex tooLong (butlast p)"
    using short tooLong_prefix[OF prefixeq_butlast, of p] by blast
  moreover have "\<not> isFile es q" if "prefix q (butlast p)" for q
    using nofile prefix_butlast_strict[OF ne that] by blast
  ultimately obtain es2 where mk: "os_MkdirAll es (butlast p) = (None, es2)"
    using mkdirAll_ok[of "butlast p" es] by blast
  have par: "statInfo es2 (butlast p) = Inr None"
    using mkdirAll_prefix[OF mk, of "butlast p"] by simp
  have "statInfo es2 p \<noteq> Inr None"
    using mkdirAll_other[OF mk not_prefix_butlast[OF ne], of None] nodir by simp
  moreover from short ne have "\<not> tooLong (last p)" by (auto simp: list_ex_iff)
  ultimately obtain es3 where "os_WriteFile es2 p d = Inr es3"
    using writeFile_ok[OF ne nul _ par, of d] by blast
  with mk show ?thesis by (rule that)
qed

lemma PutBlob_kinds:
  "\<not> failsWith NotFound (fst (PutBlob s a c b content ct md))
   \<and> \<not> failsWith AlreadyExists (fst (PutBlob s a c b content ct md))"
  by (simp add: PutBlob_unfold failsWith_def split: sum.splits prod.splits option.splits)

lemma kind_not_InvalidArgument: "kind e \<noteq> InvalidArgument"
  by (cases e) auto

lemma never_InvalidArgument:
  "\<not> failsWith InvalidArgument r" "\<not> failsWithL InvalidArgument r'"
  by (auto simp: failsWith_def failsWithL_def kind_not_InvalidArgument split: option.splits sum.splits)

text \<open>The function passed to the walk is a filter followed by a cap.\<close>

lemma filesOf_simps [simp]:
  "filesOf [] = []"
  "filesOf ((rel, File d) # vs) = (rel, d) # filesOf vs"
  "filesOf ((rel, Dir ds) # vs) = filesOf vs"
  by (simp_all add: filesOf_def)

lemma walkFn_Dir: "walkFn pfx n ((rel, Dir ds) # vs) results = walkFn pfx n vs results"
  by simp

lemma walkFn_File:
  "walkFn pfx n ((rel, File d) # vs) results =
     (if \<not> matching pfx (rel, d) then walkFn pfx n vs results
      else if n > 0 \<and> int (length results) \<ge> n then results
      else walkFn pfx n vs (results @ [entryOf (rel, d)]))"
  by (simp add: Let_def matching_def entryOf_def filepath_HasPrefix_def)

lemma walkFn_all:
  "\<not> maxResults > 0 \<Longrightarrow>
   walkFn pfx maxResults visits results
     = results @ map entryOf (filter (matching pfx) (filesOf visits))"
proof (induction visits arbitrary: results)
  case Nil
  then show ?case by simp
next
  case (Cons v vs)
  obtain rel info where v: "v = (rel, info)" by (cases v)
  show ?case
  proof (cases info)
    case (File d)
    with Cons show ?thesis by (simp add: v walkFn_File del: walkFn.simps)
  next
    case (Dir ds)
    with Cons show ?thesis by (simp add: v walkFn_Dir del: walkFn.simps)
  qed
qed

lemma walkFn_capped:
  "maxResults > 0 \<Longrightarrow>
   walkFn pfx maxResults visits results
     = results @ map entryOf (take (nat maxResults - length results) (filter (matching pfx) (filesOf visits)))"
proof (induction visits arbitrary: results)
  case Nil
  then show ?case by simp
next
  case (Cons v vs)
  obtain rel info where v: "v = (rel, info)" by (cases v)
  show ?case
  proof (cases info)
    case (Dir ds)
    with Cons show ?thesis by (simp add: v walkFn_Dir del: walkFn.simps)
  next
    case (File d)
    show ?thesis
    proof (cases "matching pfx (rel, d)")
      case False
      with Cons File show ?thesis by (simp add: v walkFn_File del: walkFn.simps)
    next
      case True
      show ?thesis
      proof (cases "int (length results) \<ge> maxResults")
        case full: True
        then have "nat maxResults - length results = 0" by simp
        with True File full Cons.prems show ?thesis
          by (simp add: v walkFn_File del: walkFn.simps)
      next
        case room: False
        then obtain k where k: "nat maxResults - length results = Suc k"
          and k': "nat maxResults - Suc (length results) = k"
          by (cases "nat maxResults - length results") auto
        have "walkFn pfx maxResults (v # vs) results
              = walkFn pfx maxResults vs (results @ [entryOf (rel, d)])"
          using True room File by (simp add: v walkFn_File del: walkFn.simps)
        also have "\<dots> = (results @ [entryOf (rel, d)]) @
            map entryOf (take (nat maxResults - length (results @ [entryOf (rel, d)]))
                           (filter (matching pfx) (filesOf vs)))"
          by (rule Cons.IH) (rule Cons.prems)
        finally show ?thesis
          using True File k k' by (simp add: v)
      qed
    qed
  qed
qed

text \<open>What a walk visits.\<close>

lemma readDirNames_set: "x \<in> set (readDirNames es) \<longleftrightarrow> x \<in> fst ` set es \<and> validName x"
  by (auto simp: readDirNames_def)

lemma os_Stat_Inr: "os_Stat es p = Inr n \<Longrightarrow> \<not> nulIn p"
  by (auto simp: os_Stat_def split: if_splits)

lemma Walk_visits:
  "(rel, m) \<in> set (filepath_Walk n) \<longleftrightarrow>
     (case n of File d \<Rightarrow> rel = [] \<and> m = File d | Dir es \<Rightarrow> os_Stat es rel = Inr m)"
proof (induction n arbitrary: rel m rule: filepath_Walk.induct)
  case (1 d)
  then show ?case by auto
next
  case (2 es)
  show ?case
  proof (cases rel)
    case Nil
    then show ?thesis by (auto simp: os_Stat_def)
  next
    case (Cons x xs)
    have keys: "map_of es x = Some c \<Longrightarrow> validName x \<Longrightarrow> x \<in> set (readDirNames es)" for c
      by (auto simp: readDirNames_set dest: map_of_SomeD intro: rev_image_eqI)
    have one: "(x # xs, m) \<in> set (case map_of es y of None \<Rightarrow> []
                 | Some c \<Rightarrow> map (\<lambda>(rel, n). (y # rel, n)) (filepath_Walk c))
               \<longleftrightarrow> y = x \<and> (\<exists>c. map_of es x = Some c \<and> (xs, m) \<in> set (filepath_Walk c))" for y
      by (cases "map_of es y") (auto simp: image_iff intro: bexI[of _ "(xs, m)"])
    have "(rel, m) \<in> set (filepath_Walk (Dir es)) \<longleftrightarrow>
            (\<exists>y \<in> set (readDirNames es).
               (x # xs, m) \<in> set (case map_of es y of None \<Rightarrow> []
                 | Some c \<Rightarrow> map (\<lambda>(rel, n). (y # rel, n)) (filepath_Walk c)))"
      by (simp add: Cons)
    also have "\<dots> \<longleftrightarrow> validName x \<and> (\<exists>c. map_of es x = Some c \<and> (xs, m) \<in> set (filepath_Walk c))"
      unfolding one using keys readDirNames_set[of x es] by blast
    also have "\<dots> \<longleftrightarrow> os_Stat es rel = Inr m"
    proof (cases "validName x")
      case False
      then show ?thesis by (auto simp: Cons os_Stat_Cons validName_def)
    next
      case True
      show ?thesis
      proof (cases "map_of es x")
        case None
        with True show ?thesis by (simp add: Cons os_Stat_Cons validName_def)
      next
        case (Some c)
        with True have "x \<in> set (readDirNames es)" by (intro keys)
        from "2.IH"[OF this Some, of xs m] Some True show ?thesis
          by (cases c) (auto simp: Cons os_Stat_Cons validName_def dest: os_Stat_Inr)
      qed
    qed
    finally show ?thesis by simp
  qed
qed

lemma distinct_heads:
  "distinct names \<Longrightarrow> (\<And>y. y \<in> set names \<Longrightarrow> distinct (map fst (g y)))
   \<Longrightarrow> (\<And>y p. y \<in> set names \<Longrightarrow> p \<in> set (g y) \<Longrightarrow> \<exists>r. fst p = y # r)
   \<Longrightarrow> distinct (map fst (concat (map g names)))"
proof (induction names)
  case Nil
  then show ?case by simp
next
  case (Cons y ys)
  have "distinct (map fst (concat (map g ys)))"
    by (rule Cons.IH) (use Cons.prems in auto)
  moreover have "distinct (map fst (g y))" by (rule Cons.prems(2)) simp
  moreover have "fst p \<noteq> fst q" if "p \<in> set (g y)" "q \<in> set (concat (map g ys))" for p q
  proof -
    from that(1) Cons.prems(3)[of y p] obtain r where p: "fst p = y # r" by auto
    from that(2) obtain z where z: "z \<in> set ys" "q \<in> set (g z)" by auto
    with Cons.prems(3)[of z q] obtain r' where q: "fst q = z # r'" by auto
    from z(1) Cons.prems(1) have "z \<noteq> y" by auto
    with p q show ?thesis by simp
  qed
  ultimately show ?case by (auto simp: image_iff) metis
qed

lemma Walk_distinct: "distinct (map fst (filepath_Walk n))"
proof (induction n rule: filepath_Walk.induct)
  case (1 d)
  then show ?case by simp
next
  case (2 es)
  let ?g = "\<lambda>x. case map_of es x of None \<Rightarrow> []
                 | Some c \<Rightarrow> map (\<lambda>(rel, n). (x # rel, n)) (filepath_Walk c)"
  have heads: "\<exists>r. fst p = y # r" if "p \<in> set (?g y)" for y p
    using that by (cases "map_of es y") auto
  have "distinct (map fst (concat (map ?g (readDirNames es))))"
  proof (rule distinct_heads)
    show "distinct (readDirNames es)" by (simp add: readDirNames_def)
    show "distinct (map fst (?g y))" if "y \<in> set (readDirNames es)" for y
    proof (cases "map_of es y")
      case None
      then show ?thesis by simp
    next
      case (Some c)
      have "map fst (map (\<lambda>(rel, n). (y # rel, n)) (filepath_Walk c))
              = map ((#) y) (map fst (filepath_Walk c))"
        by (simp add: case_prod_unfold comp_def)
      with "2.IH"[OF that Some] Some show ?thesis
        by (simp add: distinct_map del: map_map)
    qed
    show "\<exists>r. fst p = y # r" if "p \<in> set (?g y)" for y p
      using that by (rule heads)
  qed
  moreover have "[] \<notin> fst ` set (concat (map ?g (readDirNames es)))"
    using heads by fastforce
  ultimately show ?case by simp
qed

lemma filesOf_set: "(rel, d) \<in> set (filesOf vs) \<longleftrightarrow> (rel, File d) \<in> set vs"
  by (auto simp: filesOf_def split: node.splits)

lemma filesOf_distinct: "distinct (map fst vs) \<Longrightarrow> distinct (map fst (filesOf vs))"
proof (induction vs)
  case Nil
  then show ?case by simp
next
  case (Cons v vs)
  obtain rel m where v: "v = (rel, m)" by (cases v)
  from Cons show ?case
    by (cases m) (force simp: v filesOf_set image_iff)+
qed

lemma regularFiles_distinct: "distinct (map fst (regularFiles n))"
  unfolding regularFiles_def by (intro filesOf_distinct Walk_distinct)

lemma regularFiles_Dir:
  "(rel, d) \<in> set (regularFiles (Dir ds)) \<longleftrightarrow> os_Stat ds rel = Inr (File d)"
  by (simp add: regularFiles_def filesOf_set Walk_visits del: filepath_Walk.simps)

lemma ListBlobs_unfold:
  "ListBlobs s a c pfx n =
     (case os_Stat (disk s) (containerPath s a c) of
        Inl e \<Rightarrow> (if e = ENOENT then Inl (ContainerDoesNotExist c) else Inl (WalkError e))
      | Inr info \<Rightarrow>
          Inr (map entryOf
                 (if n > 0 then take (nat n) (filter (matching pfx) (regularFiles info))
                  else filter (matching pfx) (regularFiles info))))"
  using walkFn_capped[of n pfx _ "[]"] walkFn_all[of n pfx _ "[]"]
  by (simp add: ListBlobs_def Let_def os_IsNotExist_def regularFiles_def split: sum.splits)

subsection \<open>Plain names\<close>

lemma splitSep_plain: "CHR ''/'' \<notin> set x \<Longrightarrow> splitSep x = [x]"
  by (induction x) auto

lemma containerPath_plain:
  "plainName a \<Longrightarrow> plainName c \<Longrightarrow> containerPath s a c = baseDir s @ [a, c]"
  by (simp add: containerPath_def filepath_Join_def plainName_def splitSep_plain)

lemma split_at_sep:
  "z \<notin> set a \<Longrightarrow> z \<notin> set a' \<Longrightarrow> a @ z # c = a' @ z # c' \<Longrightarrow> a = a' \<and> c = c'"
proof (induction a arbitrary: a')
  case Nil
  then show ?case by (cases a') auto
next
  case (Cons x xs)
  then show ?case by (cases a') auto
qed

lemma containerKey_plain:
  "plainName a \<Longrightarrow> plainName a' \<Longrightarrow> containerKey a c = containerKey a' c' \<longleftrightarrow> a = a' \<and> c = c'"
  using split_at_sep[of "CHR ''/''" a a' c c']
  by (auto simp: containerKey_def plainName_def)

lemma prefix_same_length: "prefix p q \<Longrightarrow> length p = length q \<Longrightarrow> p = q"
  by (auto simp: prefix_def)

lemma prefixes_same_length: "prefix p r \<Longrightarrow> prefix q r \<Longrightarrow> length p = length q \<Longrightarrow> p = q"
  using prefix_same_cases[of p r q] prefix_same_length[of p q] prefix_same_length[of q p] by auto

subsection \<open>The invariant, step by step\<close>

lemma indexMatchesDisk_iff:
  "indexMatchesDisk s \<longleftrightarrow>
     (\<forall>a c. plainName a \<and> plainName c \<longrightarrow>
        (has (containers s) (containerKey a c) \<longleftrightarrow> statInfo (disk s) (baseDir s @ [a, c]) = Inr None))"
  by (auto simp: indexMatchesDisk_def ContainerExists_def isDir_statInfo containerPath_plain)

lemma invariant_disk_change:
  assumes "indexMatchesDisk s"
    and "\<And>a c. plainName a \<Longrightarrow> plainName c \<Longrightarrow>
           statInfo d (baseDir s @ [a, c]) = Inr None \<longleftrightarrow> statInfo (disk s) (baseDir s @ [a, c]) = Inr None"
  shows "indexMatchesDisk (s\<lparr>disk := d\<rparr>)"
  using assms by (simp add: indexMatchesDisk_iff)

lemma mkdirAll_level:
  assumes "os_MkdirAll es p = (e, es')" and "length q = length p" and "q \<noteq> p \<or> e \<noteq> None"
  shows "statInfo es' q = Inr None \<longleftrightarrow> statInfo es q = Inr None"
proof (cases "q = p")
  case False
  with assms(2) have "\<not> prefix q p" using prefix_same_length by blast
  from mkdirAll_other[OF assms(1) this] show ?thesis .
next
  case True
  with assms(3) obtain err where e: "e = Some err" by auto
  from assms(1) have "statInfo es' p \<noteq> Inr None"
    unfolding e by (rule mkdirAll_fails_not_dir)
  moreover have "statInfo es p \<noteq> Inr None"
    using mkdirAll_isDir[of es p] assms(1) e by auto
  ultimately show ?thesis by (simp add: True)
qed

lemma invariant_CreateContainer:
  assumes inv: "indexMatchesDisk s" and pl: "plainName a" "plainName c"
  shows "indexMatchesDisk (snd (CreateContainer s a c))"
proof (cases "has (containers s) (containerKey a c)")
  case True
  with inv show ?thesis by (simp add: CreateContainer_def)
next
  case False
  obtain e d where mk: "os_MkdirAll (disk s) (baseDir s @ [a, c]) = (e, d)"
    by (cases "os_MkdirAll (disk s) (baseDir s @ [a, c])")
  show ?thesis
  proof (cases e)
    case (Some err)
    have "indexMatchesDisk (s\<lparr>disk := d\<rparr>)"
    proof (rule invariant_disk_change[OF inv])
      fix a' c'
      show "statInfo d (baseDir s @ [a', c']) = Inr None
              \<longleftrightarrow> statInfo (disk s) (baseDir s @ [a', c']) = Inr None"
        by (rule mkdirAll_level[OF mk]) (simp_all add: Some)
    qed
    with False mk Some show ?thesis
      by (simp add: CreateContainer_def containerPath_plain pl)
  next
    case None
    have s': "snd (CreateContainer s a c) = s\<lparr>disk := d, containers := (containers s)(containerKey a c \<mapsto> True)\<rparr>"
      using False mk None by (simp add: CreateContainer_def containerPath_plain pl)
    show ?thesis
      unfolding indexMatchesDisk_iff s'
    proof (intro allI impI)
      fix a' c' assume p': "plainName a' \<and> plainName c'"
      show "has (containers (s\<lparr>disk := d, containers := (containers s)(containerKey a c \<mapsto> True)\<rparr>)) (containerKey a' c')
            \<longleftrightarrow> statInfo (disk (s\<lparr>disk := d, containers := (containers s)(containerKey a c \<mapsto> True)\<rparr>))
                  (baseDir (s\<lparr>disk := d, containers := (containers s)(containerKey a c \<mapsto> True)\<rparr>) @ [a', c']) = Inr None"
      proof (cases "a' = a \<and> c' = c")
        case True
        with mkdirAll_prefix[OF mk[unfolded None], of "baseDir s @ [a, c]"] show ?thesis by simp
      next
        case False
        then have k: "containerKey a' c' \<noteq> containerKey a c"
          using containerKey_plain[of a' a c' c] p' pl by simp
        from False have "baseDir s @ [a', c'] \<noteq> baseDir s @ [a, c]" by auto
        with mkdirAll_level[OF mk, of "baseDir s @ [a', c']"] k inv p' show ?thesis
          by (simp add: indexMatchesDisk_iff)
      qed
    qed
  qed
qed

lemma invariant_DeleteContainer:
  assumes inv: "indexMatchesDisk s" and pl: "plainName a" "plainName c"
  shows "indexMatchesDisk (snd (DeleteContainer s a c))"
proof (cases "has (containers s) (containerKey a c)")
  case False
  with inv show ?thesis by (simp add: DeleteContainer_unfold)
next
  case True
  obtain e d where rm: "os_RemoveAll (disk s) (baseDir s @ [a, c]) = (e, d)"
    by (cases "os_RemoveAll (disk s) (baseDir s @ [a, c])")
  show ?thesis
  proof (cases e)
    case (Some err)
    with removeAll_error[of "disk s" "baseDir s @ [a, c]" err d] rm have "d = disk s" by simp
    with True rm Some inv show ?thesis
      by (simp add: DeleteContainer_unfold containerPath_plain pl)
  next
    case None
    have s': "snd (DeleteContainer s a c) = s\<lparr>disk := d, containers := (containers s)(containerKey a c := None)\<rparr>"
      using True rm None by (simp add: DeleteContainer_unfold containerPath_plain pl)
    show ?thesis
      unfolding indexMatchesDisk_iff s'
    proof (intro allI impI)
      fix a' c' assume p': "plainName a' \<and> plainName c'"
      show "has (containers (s\<lparr>disk := d, containers := (containers s)(containerKey a c := None)\<rparr>)) (containerKey a' c')
            \<longleftrightarrow> statInfo (disk (s\<lparr>disk := d, containers := (containers s)(containerKey a c := None)\<rparr>))
                  (baseDir (s\<lparr>disk := d, containers := (containers s)(containerKey a c := None)\<rparr>) @ [a', c']) = Inr None"
      proof (cases "a' = a \<and> c' = c")
        case True
        with removeAll_nothing[OF rm[unfolded None], of "[]" None] show ?thesis by simp
      next
        case False
        then have k: "containerKey a' c' \<noteq> containerKey a c"
          using containerKey_plain[of a' a c' c] p' pl by simp
        from False have "\<not> prefix (baseDir s @ [a, c]) (baseDir s @ [a', c'])" by auto
        from removeAll_other[OF rm this] k inv p' show ?thesis
          by (simp add: indexMatchesDisk_iff)
      qed
    qed
  qed
qed

lemma invariant_DeleteBlob:
  assumes inv: "indexMatchesDisk s" and pl: "plainName a" "plainName c"
    and inside: "insideContainer s a c b"
  shows "indexMatchesDisk (snd (DeleteBlob s a c b))"
proof (cases "os_Remove (disk s) (blobPath s a c b)")
  case (Inl e)
  with inv show ?thesis by (simp add: DeleteBlob_unfold)
next
  case (Inr d)
  from inside have len: "length (blobPath s a c b) > length (baseDir s) + 2"
    by (auto simp: insideContainer_def containerPath_plain pl strict_prefix_def prefix_def)
  have "indexMatchesDisk (s\<lparr>disk := d\<rparr>)"
  proof (rule invariant_disk_change[OF inv])
    fix a' c'
    have "\<not> prefix (blobPath s a c b) (baseDir s @ [a', c'])"
      using len by (auto dest: prefix_length_le)
    from remove_other[OF Inr this]
    show "statInfo d (baseDir s @ [a', c']) = Inr None \<longleftrightarrow> statInfo (disk s) (baseDir s @ [a', c']) = Inr None"
      by simp
  qed
  with Inr show ?thesis by (simp add: DeleteBlob_unfold)
qed

lemma invariant_blob_write:
  assumes inv: "indexMatchesDisk s" and pl: "plainName a" "plainName c"
    and inside: "insideContainer s a c b"
    and h: "has (containers s) (containerKey a c)"
  shows "indexMatchesDisk
           (snd (case os_MkdirAll (disk s) (filepath_Dir (blobPath s a c b)) of
                   (Some e, d2) \<Rightarrow> (Some (Failed ''failed to create blob directory'' e), s\<lparr>disk := d2\<rparr>)
                 | (None, d2) \<Rightarrow>
                     (case os_WriteFile d2 (blobPath s a c b) content of
                        Inl e \<Rightarrow> (Some (Failed ''failed to write blob'' e), s\<lparr>disk := d2\<rparr>)
                      | Inr d3 \<Rightarrow> (None, s\<lparr>disk := d3\<rparr>))))"
proof -
  let ?bp = "blobPath s a c b"
  let ?cp = "baseDir s @ [a, c]"
  obtain e d2 where mk: "os_MkdirAll (disk s) (filepath_Dir ?bp) = (e, d2)"
    by (cases "os_MkdirAll (disk s) (filepath_Dir ?bp)")
  from inside have sp: "strict_prefix ?cp ?bp"
    by (simp add: insideContainer_def containerPath_plain pl)
  then have cpd: "prefix ?cp (filepath_Dir ?bp)"
    unfolding filepath_Dir_def by (rule strict_prefix_butlast)
  from sp have len: "length ?bp > length (baseDir s) + 2"
    by (auto simp: strict_prefix_def prefix_def)
  from inv h pl have cdir: "statInfo (disk s) ?cp = Inr None"
    by (simp add: indexMatchesDisk_iff)
  have keep2: "statInfo d2 (baseDir s @ [a', c']) = Inr None
                 \<longleftrightarrow> statInfo (disk s) (baseDir s @ [a', c']) = Inr None" for a' c'
  proof (cases "prefix (baseDir s @ [a', c']) (filepath_Dir ?bp)")
    case True
    with cpd have "baseDir s @ [a', c'] = ?cp"
      by (intro prefixes_same_length[of _ "filepath_Dir ?bp"]) simp_all
    with mkdirAll_dirs[OF mk cdir] cdir show ?thesis by simp
  next
    case False
    from mkdirAll_other[OF mk False] show ?thesis by simp
  qed
  have i2: "indexMatchesDisk (s\<lparr>disk := d2\<rparr>)"
    by (rule invariant_disk_change[OF inv]) (rule keep2)
  show ?thesis
  proof (cases e)
    case (Some err)
    with mk i2 show ?thesis by simp
  next
    case None
    show ?thesis
    proof (cases "os_WriteFile d2 ?bp content")
      case (Inl err)
      with mk None i2 show ?thesis by simp
    next
      case w: (Inr d3)
      have "indexMatchesDisk (s\<lparr>disk := d3\<rparr>)"
      proof (rule invariant_disk_change[OF inv])
        fix a' c'
        have "\<not> prefix ?bp (baseDir s @ [a', c'])"
          using len by (auto dest: prefix_length_le)
        from writeFile_other[OF w this] keep2[of a' c']
        show "statInfo d3 (baseDir s @ [a', c']) = Inr None
                \<longleftrightarrow> statInfo (disk s) (baseDir s @ [a', c']) = Inr None"
          by simp
      qed
      with mk None w show ?thesis by simp
    qed
  qed
qed

lemma insideContainer_baseDir:
  "baseDir s' = baseDir s \<Longrightarrow> insideContainer s' a c b = insideContainer s a c b"
  by (simp add: insideContainer_def blobPath_def containerPath_def)

lemma properCall_baseDir: "baseDir s' = baseDir s \<Longrightarrow> properCall s' call = properCall s call"
  by (cases call) (simp_all add: insideContainer_def blobPath_def containerPath_def)

lemma invariant_PutBlob:
  assumes inv: "indexMatchesDisk s" and pl: "plainName a" "plainName c"
    and inside: "insideContainer s a c b"
  shows "indexMatchesDisk (snd (PutBlob s a c b content ct md))"
proof (cases "has (containers s) (containerKey a c)")
  case True
  with invariant_blob_write[OF inv pl inside True, of content] show ?thesis
    by (simp add: PutBlob_unfold)
next
  case False
  obtain e1 d1 where mk1: "os_MkdirAll (disk s) (containerPath s a c) = (e1, d1)"
    by (cases "os_MkdirAll (disk s) (containerPath s a c)")
  note cc = invariant_CreateContainer[OF inv pl]
  show ?thesis
  proof (cases e1)
    case (Some err)
    with False mk1 have "snd (PutBlob s a c b content ct md) = snd (CreateContainer s a c)"
      by (simp add: PutBlob_unfold CreateContainer_def)
    with cc show ?thesis by simp
  next
    case None
    define s1 where "s1 = s\<lparr>disk := d1, containers := (containers s)(containerKey a c \<mapsto> True)\<rparr>"
    have s1: "snd (CreateContainer s a c) = s1"
      using False mk1 None by (simp add: CreateContainer_def s1_def)
    have i1: "indexMatchesDisk s1"
      using cc by (simp add: s1)
    have in1: "insideContainer s1 a c b"
      using inside insideContainer_baseDir[of s1 s a c b] by (simp add: s1_def)
    have h1: "has (containers s1) (containerKey a c)" by (simp add: s1_def)
    have bp: "blobPath s1 a c b = blobPath s a c b"
      by (simp add: blobPath_def containerPath_def s1_def)
    have d1: "disk s1 = d1" by (simp add: s1_def)
    note X = invariant_blob_write[OF i1 pl in1 h1, of content, unfolded bp d1]
    obtain e2 d2 where mk2: "os_MkdirAll d1 (filepath_Dir (blobPath s a c b)) = (e2, d2)"
      by (cases "os_MkdirAll d1 (filepath_Dir (blobPath s a c b))")
    show ?thesis
    proof (cases e2)
      case (Some err)
      then have "snd (PutBlob s a c b content ct md) = s1\<lparr>disk := d2\<rparr>"
        using False mk1 None mk2 by (simp add: PutBlob_unfold s1_def)
      with X mk2 Some show ?thesis by simp
    next
      case n2: None
      show ?thesis
      proof (cases "os_WriteFile d2 (blobPath s a c b) content")
        case (Inl err)
        then have "snd (PutBlob s a c b content ct md) = s1\<lparr>disk := d2\<rparr>"
          using False mk1 None mk2 n2 by (simp add: PutBlob_unfold s1_def)
        with X mk2 n2 Inl show ?thesis by simp
      next
        case w: (Inr d3)
        then have "snd (PutBlob s a c b content ct md) = s1\<lparr>disk := d3\<rparr>"
          using False mk1 None mk2 n2 by (simp add: PutBlob_unfold s1_def)
        with X mk2 n2 w show ?thesis by simp
      qed
    qed
  qed
qed

lemma exec_baseDir: "baseDir (exec s call) = baseDir s"
  by (cases call)
     (simp_all add: CreateContainer_def DeleteContainer_unfold DeleteBlob_unfold Let_def
        split: sum.splits prod.splits option.splits)

lemma invariant_exec:
  "indexMatchesDisk s \<Longrightarrow> properCall s call \<Longrightarrow> indexMatchesDisk (exec s call)"
  by (cases call)
     (simp_all add: invariant_CreateContainer invariant_DeleteContainer invariant_PutBlob
        invariant_DeleteBlob)

lemma invariant_run:
  "indexMatchesDisk s \<Longrightarrow> \<forall>call \<in> set calls. properCall s call \<Longrightarrow> indexMatchesDisk (run s calls)"
proof (induction calls arbitrary: s)
  case Nil
  then show ?case by (simp add: run_def)
next
  case (Cons call calls)
  have "indexMatchesDisk (exec s call)"
    using Cons.prems by (simp add: invariant_exec)
  moreover have "\<forall>k \<in> set calls. properCall (exec s call) k"
    using Cons.prems properCall_baseDir[OF exec_baseDir[of s call]] by simp
  ultimately have "indexMatchesDisk (run (exec s call) calls)" by (rule Cons.IH)
  then show ?case by (simp add: run_def)
qed

lemma invariant_fresh:
  assumes "NewFileBlobStore d dataDir = Inr s0"
    and "os_Stat d (filepath_Join [] [dataDir, ''blob'']) = Inl ENOENT"
  shows "indexMatchesDisk s0"
proof -
  let ?b = "filepath_Join [] [dataDir, ''blob'']"
  from assms(2) have absent: "statInfo d ?b = Inl ENOENT" by (simp add: stat_Inl_statInfo)
  from assms(1) obtain d' where mk: "os_MkdirAll d ?b = (None, d')"
    and s0: "s0 = \<lparr>baseDir = ?b, containers = Map.empty, disk = d'\<rparr>"
    by (auto simp: NewFileBlobStore_def Let_def split: prod.splits option.splits)
  from mkdirAll_absent[OF absent mk] have e: "os_Stat d' ?b = Inr (Dir [])" .
  have "statInfo [] [a, c] \<noteq> Inr None" for a c :: string
    by (simp add: statInfo_lookInfo lookInfo_empty)
  then show ?thesis
    using statInfo_append_Dir[OF e]
    by (simp add: indexMatchesDisk_iff s0 has_def)
qed

lemma freshStore_new: "NewFileBlobStore [] ''./data'' = Inr freshStore"
  by (simp add: NewFileBlobStore_def filepath_Join_def freshStore_def hasNUL_def tooLong_def)

subsection \<open>The index and the disk\<close>

text \<open>
  C1, as the code has it. Take a store made by \<^verbatim>\<open>NewFileBlobStore\<close> over a data directory
  that has no \<^verbatim>\<open>blob\<close> directory yet, and any sequence of calls in which the account and
  container names are plain names and the blob names of \<^verbatim>\<open>PutBlob\<close> and \<^verbatim>\<open>DeleteBlob\<close> lie inside
  their container. After the sequence (so after each of its calls, whether it failed or
  not) a container with a plain account and name is in the index exactly when its path
  \<^verbatim>\<open>baseDir/account/containerName\<close> is a directory on disk.
\<close>

theorem index_matches_disk:
  assumes "NewFileBlobStore d dataDir = Inr s0"
    and "os_Stat d (filepath_Join [] [dataDir, ''blob'']) = Inl ENOENT"
    and "\<forall>call \<in> set calls. properCall s0 call"
    and "plainName account" and "plainName containerName"
  shows "ContainerExists (run s0 calls) account containerName
           \<longleftrightarrow> isDir (disk (run s0 calls)) (containerPath (run s0 calls) account containerName)"
proof -
  have "indexMatchesDisk s0" using assms(1,2) by (rule invariant_fresh)
  then have "indexMatchesDisk (run s0 calls)" using assms(3) by (rule invariant_run)
  with assms(4,5) show ?thesis by (simp add: indexMatchesDisk_def)
qed

text \<open>
  Four calls on the fresh store: the container \<^verbatim>\<open>c1\<close> is created and deleted again, the
  container \<^verbatim>\<open>c2\<close> is made by \<^verbatim>\<open>PutBlob\<close> and its only blob is deleted.
\<close>

theorem index_matches_disk_witness:
  "NewFileBlobStore [] ''./data'' = Inr freshStore
   \<and> os_Stat [] (filepath_Join [] [''./data'', ''blob'']) = Inl ENOENT
   \<and> list_all (properCall freshStore)
         [CallCreateContainer ''acct'' ''c1'',
                     CallPutBlob ''acct'' ''c2'' ''dir/f.txt'' [104, 105] ''text/plain'' Map.empty,
                     CallDeleteBlob ''acct'' ''c2'' ''dir/f.txt'',
                     CallDeleteContainer ''acct'' ''c1'']
   \<and> plainName ''acct'' \<and> plainName ''c1'' \<and> plainName ''c2''
   \<and> ContainerExists
        (run freshStore [CallCreateContainer ''acct'' ''c1'',
                     CallPutBlob ''acct'' ''c2'' ''dir/f.txt'' [104, 105] ''text/plain'' Map.empty,
                     CallDeleteBlob ''acct'' ''c2'' ''dir/f.txt'',
                     CallDeleteContainer ''acct'' ''c1'']) ''acct'' ''c2''
   \<and> isDir
        (disk (run freshStore [CallCreateContainer ''acct'' ''c1'',
                     CallPutBlob ''acct'' ''c2'' ''dir/f.txt'' [104, 105] ''text/plain'' Map.empty,
                     CallDeleteBlob ''acct'' ''c2'' ''dir/f.txt'',
                     CallDeleteContainer ''acct'' ''c1'']))
        (containerPath (run freshStore [CallCreateContainer ''acct'' ''c1'',
                     CallPutBlob ''acct'' ''c2'' ''dir/f.txt'' [104, 105] ''text/plain'' Map.empty,
                     CallDeleteBlob ''acct'' ''c2'' ''dir/f.txt'',
                     CallDeleteContainer ''acct'' ''c1'']) ''acct'' ''c2'')
   \<and> \<not> ContainerExists
        (run freshStore [CallCreateContainer ''acct'' ''c1'',
                     CallPutBlob ''acct'' ''c2'' ''dir/f.txt'' [104, 105] ''text/plain'' Map.empty,
                     CallDeleteBlob ''acct'' ''c2'' ''dir/f.txt'',
                     CallDeleteContainer ''acct'' ''c1'']) ''acct'' ''c1''
   \<and> \<not> isDir
        (disk (run freshStore [CallCreateContainer ''acct'' ''c1'',
                     CallPutBlob ''acct'' ''c2'' ''dir/f.txt'' [104, 105] ''text/plain'' Map.empty,
                     CallDeleteBlob ''acct'' ''c2'' ''dir/f.txt'',
                     CallDeleteContainer ''acct'' ''c1'']))
        (containerPath (run freshStore [CallCreateContainer ''acct'' ''c1'',
                     CallPutBlob ''acct'' ''c2'' ''dir/f.txt'' [104, 105] ''text/plain'' Map.empty,
                     CallDeleteBlob ''acct'' ''c2'' ''dir/f.txt'',
                     CallDeleteContainer ''acct'' ''c1'']) ''acct'' ''c1'')"
proof -
  let ?calls = "[CallCreateContainer ''acct'' ''c1'',
                     CallPutBlob ''acct'' ''c2'' ''dir/f.txt'' [104, 105] ''text/plain'' Map.empty,
                     CallDeleteBlob ''acct'' ''c2'' ''dir/f.txt'',
                     CallDeleteContainer ''acct'' ''c1'']"
  have h1: "NewFileBlobStore [] ''./data'' = Inr freshStore" by (rule freshStore_new)
  have h2: "os_Stat [] (filepath_Join [] [''./data'', ''blob'']) = Inl ENOENT" by code_simp
  have h3': "list_all (properCall freshStore) ?calls" by code_simp
  then have h3: "\<forall>call \<in> set ?calls. properCall freshStore call"
    unfolding list_all_iff .
  have h4: "plainName ''acct''" "plainName ''c1''" "plainName ''c2''" by code_simp+
  have e1: "ContainerExists (run freshStore ?calls) ''acct'' ''c2''" by code_simp
  have e2: "\<not> ContainerExists (run freshStore ?calls) ''acct'' ''c1''" by code_simp
  from e1 index_matches_disk[OF h1 h2 h3 h4(1) h4(3)]
  have c1: "isDir (disk (run freshStore ?calls)) (containerPath (run freshStore ?calls) ''acct'' ''c2'')"
    by simp
  from e2 index_matches_disk[OF h1 h2 h3 h4(1) h4(2)]
  have c2: "\<not> isDir (disk (run freshStore ?calls)) (containerPath (run freshStore ?calls) ''acct'' ''c1'')"
    by simp
  from h1 h2 h3' h4 e1 e2 c1 c2 show ?thesis by blast
qed

text \<open>
  The claim as it was stated, for every sequence of calls, fails. \<^verbatim>\<open>DeleteBlob\<close> with the blob
  name \<^verbatim>\<open>.\<close> is \<^verbatim>\<open>os.Remove\<close> of the container's directory, which is empty and is removed: the
  index has the container and the disk has not. \<^verbatim>\<open>PutBlob\<close> with the blob name \<^verbatim>\<open>../d/x\<close> makes
  the directory of a container \<^verbatim>\<open>d\<close> that the index has not.
\<close>

theorem index_matches_disk_counterexample:
  "ContainerExists
     (run freshStore [CallCreateContainer ''acct'' ''c1'', CallDeleteBlob ''acct'' ''c1'' ''.''])
     ''acct'' ''c1''
   \<and> \<not> isDir
        (disk (run freshStore [CallCreateContainer ''acct'' ''c1'', CallDeleteBlob ''acct'' ''c1'' ''.'']))
        (containerPath
           (run freshStore [CallCreateContainer ''acct'' ''c1'', CallDeleteBlob ''acct'' ''c1'' ''.''])
           ''acct'' ''c1'')
   \<and> \<not> ContainerExists
        (run freshStore [CallPutBlob ''acct'' ''c1'' ''../d/x'' [7] ''text/plain'' Map.empty])
        ''acct'' ''d''
   \<and> isDir
        (disk (run freshStore [CallPutBlob ''acct'' ''c1'' ''../d/x'' [7] ''text/plain'' Map.empty]))
        (containerPath
           (run freshStore [CallPutBlob ''acct'' ''c1'' ''../d/x'' [7] ''text/plain'' Map.empty])
           ''acct'' ''d'')"
  by code_simp

subsection \<open>Writing a blob and reading it back\<close>

text \<open>
  C2. When \<^verbatim>\<open>PutBlob\<close> succeeds, \<^verbatim>\<open>GetBlob\<close> with the same account, container and blob name
  returns a blob whose bytes are those written. A second \<^verbatim>\<open>PutBlob\<close> with the same names then
  succeeds too, whatever its content, and \<^verbatim>\<open>GetBlob\<close> returns the second content: the first
  is retrievable no longer.
\<close>

theorem PutBlob_GetBlob_roundtrip:
  assumes "PutBlob s account containerName blobName content contentType metadata = (None, s1)"
  shows "(\<exists>blob. GetBlob s1 account containerName blobName = Inr blob \<and> Content blob = content)
    \<and> (\<exists>s2. PutBlob s1 account containerName blobName content' contentType' metadata' = (None, s2)
          \<and> (\<exists>blob. GetBlob s2 account containerName blobName = Inr blob \<and> Content blob = content'))"
proof -
  let ?P = "PutBlob s account containerName blobName content contentType metadata"
  let ?bp = "blobPath s account containerName blobName"
  from assms have ok: "fst ?P = None" and s1: "snd ?P = s1" by simp_all
  have b1: "baseDir s1 = baseDir s"
    using PutBlob_baseDir[of s account containerName blobName content contentType metadata]
    by (simp add: s1)
  note f = PutBlob_None_facts[OF ok, unfolded s1]
  have bp1: "blobPath s1 account containerName blobName = ?bp"
    by (rule blobPath_baseDir) (rule b1)
  from f(2) have get1: "\<exists>blob. GetBlob s1 account containerName blobName = Inr blob \<and> Content blob = content"
    by (intro GetBlob_file) (simp add: bp1)
  let ?Q = "PutBlob s1 account containerName blobName content' contentType' metadata'"
  have mk: "os_MkdirAll (disk s1) (filepath_Dir ?bp) = (None, disk s1)"
    by (rule mkdirAll_isDir) (rule f(3))
  from f(2) f(3) obtain d3 where wr: "os_WriteFile (disk s1) ?bp content' = Inr d3"
    using writeFile_over[of "disk s1" ?bp content content'] by (auto simp: filepath_Dir_def)
  have ok2: "fst ?Q = None"
    using f(1) mk wr by (simp add: PutBlob_unfold bp1)
  note g = PutBlob_None_facts[OF ok2]
  have bp2: "blobPath (snd ?Q) account containerName blobName = ?bp"
    using blobPath_baseDir[of "snd ?Q" s1 account containerName blobName] bp1 by simp
  from g(2) have "\<exists>blob. GetBlob (snd ?Q) account containerName blobName = Inr blob \<and> Content blob = content'"
    by (intro GetBlob_file) (simp add: bp2 bp1)
  with ok2 have "\<exists>s2. ?Q = (None, s2)
          \<and> (\<exists>blob. GetBlob s2 account containerName blobName = Inr blob \<and> Content blob = content')"
    by (cases ?Q) auto
  with get1 show ?thesis by blast
qed

text \<open>On the fresh store, the blob \<^verbatim>\<open>dir/f.txt\<close> of a container not yet created.\<close>

theorem PutBlob_GetBlob_roundtrip_witness:
  "fst (PutBlob freshStore ''acct'' ''c1'' ''dir/f.txt'' [104, 105] ''text/plain'' Map.empty) = None
   \<and> (\<exists>blob. GetBlob (snd (PutBlob freshStore ''acct'' ''c1'' ''dir/f.txt'' [104, 105] ''text/plain'' Map.empty))
               ''acct'' ''c1'' ''dir/f.txt'' = Inr blob \<and> Content blob = [104, 105])"
proof -
  let ?P = "PutBlob freshStore ''acct'' ''c1'' ''dir/f.txt'' [104, 105] ''text/plain'' Map.empty"
  have h: "fst ?P = None" by code_simp
  then have "?P = (None, snd ?P)" by (simp add: prod_eq_iff)
  from PutBlob_GetBlob_roundtrip[OF this] h show ?thesis by blast
qed

subsection \<open>Creating a container\<close>

text \<open>
  C3. \<^verbatim>\<open>CreateContainer\<close> fails with an error of kind AlreadyExists exactly when the index has
  the key of the account and container. After a \<^verbatim>\<open>CreateContainer\<close> that succeeds,
  \<^verbatim>\<open>ContainerExists\<close> is true and a second \<^verbatim>\<open>CreateContainer\<close> fails with AlreadyExists. When the
  index does not have the key and the container's directory is already on disk,
  \<^verbatim>\<open>CreateContainer\<close> succeeds, records the key and leaves the disk as it is.
\<close>

theorem CreateContainer_AlreadyExists:
  "(failsWith AlreadyExists (fst (CreateContainer s account containerName))
      \<longleftrightarrow> has (containers s) (containerKey account containerName))
   \<and> (fst (CreateContainer s account containerName) = None \<longrightarrow>
        ContainerExists (snd (CreateContainer s account containerName)) account containerName
        \<and> failsWith AlreadyExists
            (fst (CreateContainer (snd (CreateContainer s account containerName))
                    account containerName)))
   \<and> (\<not> has (containers s) (containerKey account containerName)
        \<and> isDir (disk s) (containerPath s account containerName) \<longrightarrow>
        fst (CreateContainer s account containerName) = None
        \<and> ContainerExists (snd (CreateContainer s account containerName)) account containerName
        \<and> disk (snd (CreateContainer s account containerName)) = disk s)"
proof -
  let ?key = "containerKey account containerName"
  let ?cp = "containerPath s account containerName"
  obtain e d where mk: "os_MkdirAll (disk s) ?cp = (e, d)"
    by (cases "os_MkdirAll (disk s) ?cp")
  have dir: "os_MkdirAll (disk s) ?cp = (None, disk s)" if "isDir (disk s) ?cp"
    using that by (simp add: isDir_statInfo mkdirAll_isDir)
  show ?thesis
  proof (cases "has (containers s) ?key")
    case True
    then show ?thesis
      by (simp add: CreateContainer_def Let_def failsWith_def)
  next
    case False
    show ?thesis
    proof (cases e)
      case None
      with False mk dir show ?thesis
        by (auto simp: CreateContainer_def Let_def failsWith_def ContainerExists_def)
    next
      case (Some err)
      with False mk dir show ?thesis
        by (auto simp: CreateContainer_def Let_def failsWith_def ContainerExists_def)
    qed
  qed
qed

text \<open>
  On the fresh store, and on a store started anew (empty index) over a disk that has the
  container's directory already.
\<close>

theorem CreateContainer_AlreadyExists_witness:
  "fst (CreateContainer freshStore ''acct'' ''c1'') = None
   \<and> ContainerExists (snd (CreateContainer freshStore ''acct'' ''c1'')) ''acct'' ''c1''
   \<and> failsWith AlreadyExists
        (fst (CreateContainer (snd (CreateContainer freshStore ''acct'' ''c1'')) ''acct'' ''c1''))
   \<and> \<not> has (containers restartedStore) (containerKey ''acct'' ''c1'')
   \<and> isDir (disk restartedStore) (containerPath restartedStore ''acct'' ''c1'')
   \<and> fst (CreateContainer restartedStore ''acct'' ''c1'') = None
   \<and> ContainerExists (snd (CreateContainer restartedStore ''acct'' ''c1'')) ''acct'' ''c1''"
proof -
  have h1: "fst (CreateContainer freshStore ''acct'' ''c1'') = None" by code_simp
  have h2: "\<not> has (containers restartedStore) (containerKey ''acct'' ''c1'')
            \<and> isDir (disk restartedStore) (containerPath restartedStore ''acct'' ''c1'')"
    by code_simp
  from h1 CreateContainer_AlreadyExists[of freshStore "''acct''" "''c1''"]
  have c1: "ContainerExists (snd (CreateContainer freshStore ''acct'' ''c1'')) ''acct'' ''c1''
     \<and> failsWith AlreadyExists
        (fst (CreateContainer (snd (CreateContainer freshStore ''acct'' ''c1'')) ''acct'' ''c1''))"
    by blast
  from h2 CreateContainer_AlreadyExists[of restartedStore "''acct''" "''c1''"]
  have c2: "fst (CreateContainer restartedStore ''acct'' ''c1'') = None
   \<and> ContainerExists (snd (CreateContainer restartedStore ''acct'' ''c1'')) ''acct'' ''c1''"
    by blast
  from h1 h2 c1 c2 show ?thesis by blast
qed

subsection \<open>Listing the blobs of a container\<close>

text \<open>
  C4, as the code has it. \<^verbatim>\<open>ListBlobs\<close> fails with an error of kind NotFound exactly when
  \<^verbatim>\<open>os.Stat\<close> of the container's path reports that nothing is there. When the path is a
  directory: the regular files below it are met once each (\<^const>\<open>regularFiles\<close> has no path
  twice and holds exactly the paths at which a regular file is found); the entry of a file
  is named by its relative path with slashes between the elements, and has its size; and
  the result is the entries of the files whose name has the prefix (all files when the
  prefix is empty), cut after \<open>maxResults\<close> entries when \<open>maxResults\<close> is positive, so that it
  has the smaller of \<open>maxResults\<close> and the number of matching files as its length.
\<close>

theorem ListBlobs_listing:
  "(failsWithL NotFound (ListBlobs s account containerName pfx maxResults)
      \<longleftrightarrow> os_Stat (disk s) (containerPath s account containerName) = Inl ENOENT)
   \<and> (os_Stat (disk s) (containerPath s account containerName) = Inr (Dir ds) \<longrightarrow>
        distinct (map fst (regularFiles (Dir ds)))
        \<and> (\<forall>rel d. (rel, d) \<in> set (regularFiles (Dir ds)) \<longleftrightarrow>
              os_Stat (disk s) (containerPath s account containerName @ rel) = Inr (File d))
        \<and> (\<forall>f \<in> set (regularFiles (Dir ds)).
              BlobInfo.Name (entryOf f) = joinSlash (fst f) \<and> BlobInfo.Size (entryOf f) = int (length (snd f)))
        \<and> ListBlobs s account containerName pfx maxResults
            = Inr (map entryOf
                     (if maxResults > 0
                      then take (nat maxResults) (filter (matching pfx) (regularFiles (Dir ds)))
                      else filter (matching pfx) (regularFiles (Dir ds))))
        \<and> (\<forall>infos. ListBlobs s account containerName pfx maxResults = Inr infos \<longrightarrow>
              length infos =
                (if maxResults > 0
                 then min (nat maxResults) (length (filter (matching pfx) (regularFiles (Dir ds))))
                 else length (filter (matching pfx) (regularFiles (Dir ds))))))"
proof (intro conjI impI)
  let ?cp = "containerPath s account containerName"
  show "failsWithL NotFound (ListBlobs s account containerName pfx maxResults)
      \<longleftrightarrow> os_Stat (disk s) ?cp = Inl ENOENT"
    by (auto simp: ListBlobs_unfold failsWithL_def split: sum.splits)
  assume st: "os_Stat (disk s) ?cp = Inr (Dir ds)"
  show "distinct (map fst (regularFiles (Dir ds)))" by (rule regularFiles_distinct)
  show "\<forall>rel d. (rel, d) \<in> set (regularFiles (Dir ds)) \<longleftrightarrow>
              os_Stat (disk s) (?cp @ rel) = Inr (File d)"
    by (simp add: regularFiles_Dir stat_append_Dir[OF st])
  show "\<forall>f \<in> set (regularFiles (Dir ds)).
          BlobInfo.Name (entryOf f) = joinSlash (fst f) \<and> BlobInfo.Size (entryOf f) = int (length (snd f))"
  proof
    fix f assume "f \<in> set (regularFiles (Dir ds))"
    then have "os_Stat ds (fst f) = Inr (File (snd f))"
      using regularFiles_Dir[of "fst f" "snd f" ds] by simp
    then have "fst f \<noteq> []" by (auto simp: os_Stat_def)
    then show "BlobInfo.Name (entryOf f) = joinSlash (fst f) \<and> BlobInfo.Size (entryOf f) = int (length (snd f))"
      by (simp add: entryOf_def filepath_Rel_def)
  qed
  show eq: "ListBlobs s account containerName pfx maxResults
            = Inr (map entryOf
                     (if maxResults > 0
                      then take (nat maxResults) (filter (matching pfx) (regularFiles (Dir ds)))
                      else filter (matching pfx) (regularFiles (Dir ds))))"
    by (simp add: ListBlobs_unfold st)
  show "\<forall>infos. ListBlobs s account containerName pfx maxResults = Inr infos \<longrightarrow>
              length infos =
                (if maxResults > 0
                 then min (nat maxResults) (length (filter (matching pfx) (regularFiles (Dir ds))))
                 else length (filter (matching pfx) (regularFiles (Dir ds))))"
    unfolding eq by auto
qed

text \<open>
  Three blobs \<^verbatim>\<open>a/y\<close>, \<^verbatim>\<open>b/z\<close>, \<^verbatim>\<open>a/x\<close>: listed with the prefix \<^verbatim>\<open>a/\<close>, with a limit of two
  and with no limit; and a container that does not exist.
\<close>

theorem ListBlobs_listing_witness:
  "os_Stat (disk listStore) (containerPath listStore ''acct'' ''c1'')
     = Inr (Dir [(''a'', Dir [(''y'', File [7]), (''x'', File [])]), (''b'', Dir [(''z'', File [7, 8])])])
   \<and> map_sum id (map BlobInfo.Name) (ListBlobs listStore ''acct'' ''c1'' ''a/'' 0) = Inr [''a/x'', ''a/y'']
   \<and> map_sum id (map BlobInfo.Name) (ListBlobs listStore ''acct'' ''c1'' [] 2) = Inr [''a/x'', ''a/y'']
   \<and> map_sum id (map BlobInfo.Name) (ListBlobs listStore ''acct'' ''c1'' [] (- 1))
       = Inr [''a/x'', ''a/y'', ''b/z'']
   \<and> os_Stat (disk listStore) (containerPath listStore ''acct'' ''zz'') = Inl ENOENT
   \<and> failsWithL NotFound (ListBlobs listStore ''acct'' ''zz'' [] 0)"
proof -
  let ?ds = "[(''a'', Dir [(''y'', File [7]), (''x'', File [])]), (''b'', Dir [(''z'', File [7, 8])])]"
  have h1: "os_Stat (disk listStore) (containerPath listStore ''acct'' ''c1'') = Inr (Dir ?ds)"
    by code_simp
  have h2: "os_Stat (disk listStore) (containerPath listStore ''acct'' ''zz'') = Inl ENOENT"
    by code_simp
  have v1: "map BlobInfo.Name (map entryOf (filter (matching ''a/'') (regularFiles (Dir ?ds))))
              = [''a/x'', ''a/y'']"
    by code_simp
  have v2: "map BlobInfo.Name (map entryOf (take 2 (filter (matching []) (regularFiles (Dir ?ds)))))
              = [''a/x'', ''a/y'']"
    by code_simp
  have v3: "map BlobInfo.Name (map entryOf (filter (matching []) (regularFiles (Dir ?ds))))
              = [''a/x'', ''a/y'', ''b/z'']"
    by code_simp
  from h1 ListBlobs_listing[of listStore "''acct''" "''c1''" "''a/''" 0 ?ds]
  have e1: "ListBlobs listStore ''acct'' ''c1'' ''a/'' 0
      = Inr (map entryOf (filter (matching ''a/'') (regularFiles (Dir ?ds))))"
    by simp
  from h1 ListBlobs_listing[of listStore "''acct''" "''c1''" "[]" 2 ?ds]
  have e2: "ListBlobs listStore ''acct'' ''c1'' [] 2
      = Inr (map entryOf (take 2 (filter (matching []) (regularFiles (Dir ?ds)))))"
    by simp
  from h1 ListBlobs_listing[of listStore "''acct''" "''c1''" "[]" "- 1" ?ds]
  have e3: "ListBlobs listStore ''acct'' ''c1'' [] (- 1)
      = Inr (map entryOf (filter (matching []) (regularFiles (Dir ?ds))))"
    by simp
  from h2 ListBlobs_listing[of listStore "''acct''" "''zz''" "[]" 0]
  have e4: "failsWithL NotFound (ListBlobs listStore ''acct'' ''zz'' [] 0)"
    by blast
  show ?thesis
    using h1 h2 e4 by (simp add: e1 e2 e3 v1 v2 v3 del: map_map)
qed

text \<open>
  The claim as it was stated fails when the container's path is not a directory but a
  regular file: the blob name \<^verbatim>\<open>../d\<close> written through the container \<^verbatim>\<open>c1\<close> makes the file
  \<^verbatim>\<open>acct/d\<close>; no directory of the container \<^verbatim>\<open>d\<close> exists, and yet \<^verbatim>\<open>ListBlobs\<close> does not fail
  but returns one entry, named \<^verbatim>\<open>.\<close>
\<close>

theorem ListBlobs_listing_counterexample:
  "os_Stat (disk fileStore) (containerPath fileStore ''acct'' ''d'') = Inr (File [7])
   \<and> \<not> isDir (disk fileStore) (containerPath fileStore ''acct'' ''d'')
   \<and> \<not> failsWithL NotFound (ListBlobs fileStore ''acct'' ''d'' [] 0)
   \<and> map_sum id (map BlobInfo.Name) (ListBlobs fileStore ''acct'' ''d'' [] 0) = Inr [''.'']"
  by code_simp

subsection \<open>Writing a blob into a container that was not created\<close>

text \<open>
  C5, as the code has it. \<^verbatim>\<open>PutBlob\<close> never fails with an error of kind NotFound or
  AlreadyExists. It succeeds when the blob name lies inside the container, the blob's path
  is one the kernel accepts (no NUL byte, no element of more than 255 bytes, the whole of it
  within \<^verbatim>\<open>PATH_MAX\<close>), no regular file is at a path above the blob's, and the blob's path is
  not a directory; and this whether the index has the container or not, and whether the
  container's directory is on disk already or not. Afterwards \<^verbatim>\<open>ContainerExists\<close> is true,
  the container's path is a directory, and so is every other path above the blob's (the
  directories the blob name implies), and the blob's path is a regular file with the
  content.
\<close>

theorem PutBlob_creates_container:
  "\<not> failsWith NotFound (fst (PutBlob s account containerName blobName content contentType metadata))
   \<and> \<not> failsWith AlreadyExists (fst (PutBlob s account containerName blobName content contentType metadata))
   \<and> (insideContainer s account containerName blobName
       \<and> validPath (blobPath s account containerName blobName)
       \<and> (\<forall>q. strict_prefix q (blobPath s account containerName blobName) \<longrightarrow> \<not> isFile (disk s) q)
       \<and> \<not> isDir (disk s) (blobPath s account containerName blobName) \<longrightarrow>
       fst (PutBlob s account containerName blobName content contentType metadata) = None
       \<and> ContainerExists (snd (PutBlob s account containerName blobName content contentType metadata))
            account containerName
       \<and> isDir (disk (snd (PutBlob s account containerName blobName content contentType metadata)))
            (containerPath s account containerName)
       \<and> (\<forall>q. strict_prefix q (blobPath s account containerName blobName) \<longrightarrow>
              isDir (disk (snd (PutBlob s account containerName blobName content contentType metadata))) q)
       \<and> os_Stat (disk (snd (PutBlob s account containerName blobName content contentType metadata)))
            (blobPath s account containerName blobName) = Inr (File content))"
proof (intro conjI impI)
  let ?P = "PutBlob s account containerName blobName content contentType metadata"
  let ?key = "containerKey account containerName"
  let ?cp = "containerPath s account containerName"
  let ?bp = "blobPath s account containerName blobName"
  show "\<not> failsWith NotFound (fst ?P)" "\<not> failsWith AlreadyExists (fst ?P)"
    using PutBlob_kinds by blast+
  assume "insideContainer s account containerName blobName \<and> validPath ?bp
       \<and> (\<forall>q. strict_prefix q ?bp \<longrightarrow> \<not> isFile (disk s) q) \<and> \<not> isDir (disk s) ?bp"
  then have inside: "strict_prefix ?cp ?bp"
    and nul: "\<not> nulIn ?bp" and short: "\<not> list_ex tooLong ?bp"
    and nofile: "\<And>q. strict_prefix q ?bp \<Longrightarrow> \<not> isFile (disk s) q"
    and nodir: "statInfo (disk s) ?bp \<noteq> Inr None"
    by (simp_all add: insideContainer_def validPath_def isDir_statInfo)
  from inside have ne: "?bp \<noteq> []" by auto
  from inside have cpb: "prefix ?cp ?bp" by (simp add: strict_prefix_def)
  have "\<exists>d1. (\<forall>q. strict_prefix q ?bp \<longrightarrow> \<not> isFile d1 q) \<and> statInfo d1 ?bp \<noteq> Inr None
          \<and> ?P = (case os_MkdirAll d1 (filepath_Dir ?bp) of
                    (Some e, d2) \<Rightarrow>
                      (Some (Failed ''failed to create blob directory'' e),
                       s\<lparr>disk := d2, containers := (containers s)(?key \<mapsto> True)\<rparr>)
                  | (None, d2) \<Rightarrow>
                      (case os_WriteFile d2 ?bp content of
                         Inl e \<Rightarrow> (Some (Failed ''failed to write blob'' e),
                                    s\<lparr>disk := d2, containers := (containers s)(?key \<mapsto> True)\<rparr>)
                       | Inr d3 \<Rightarrow>
                           (None, s\<lparr>disk := d3, containers := (containers s)(?key \<mapsto> True)\<rparr>)))"
  proof (cases "has (containers s) ?key")
    case True
    then have "(containers s)(?key \<mapsto> True) = containers s"
      by (auto simp: has_def fun_eq_iff split: option.splits)
    then have same: "s\<lparr>disk := d, containers := (containers s)(?key \<mapsto> True)\<rparr> = s\<lparr>disk := d\<rparr>" for d
      by simp
    have "?P = (case os_MkdirAll (disk s) (filepath_Dir ?bp) of
                    (Some e, d2) \<Rightarrow>
                      (Some (Failed ''failed to create blob directory'' e),
                       s\<lparr>disk := d2, containers := (containers s)(?key \<mapsto> True)\<rparr>)
                  | (None, d2) \<Rightarrow>
                      (case os_WriteFile d2 ?bp content of
                         Inl e \<Rightarrow> (Some (Failed ''failed to write blob'' e),
                                    s\<lparr>disk := d2, containers := (containers s)(?key \<mapsto> True)\<rparr>)
                       | Inr d3 \<Rightarrow>
                           (None, s\<lparr>disk := d3, containers := (containers s)(?key \<mapsto> True)\<rparr>)))"
      unfolding same using True by (simp add: PutBlob_unfold)
    with nofile nodir show ?thesis
      by (intro exI[of _ "disk s"]) blast
  next
    case False
    have "\<not> nulIn ?cp" using nul nulIn_prefix[OF cpb] by blast
    moreover have "\<not> list_ex tooLong ?cp" using short tooLong_prefix[OF cpb] by blast
    moreover have "\<not> isFile (disk s) q" if "prefix q ?cp" for q
      using nofile[OF prefix_order.le_less_trans[OF that inside]] .
    ultimately obtain d1 where mk1: "os_MkdirAll (disk s) ?cp = (None, d1)"
      using mkdirAll_ok[of ?cp "disk s"] by blast
    have "\<not> isFile d1 q" if "strict_prefix q ?bp" for q
      using nofile[OF that] mkdirAll_files[OF mk1, of q] by (simp add: isFile_statInfo)
    moreover have "statInfo d1 ?bp \<noteq> Inr None"
      using mkdirAll_other[OF mk1 not_prefix_strict[OF inside], of None] nodir by simp
    ultimately show ?thesis
      using False mk1 by (intro exI[of _ d1]) (simp add: PutBlob_unfold)
  qed
  then obtain d1 where nofile1: "\<And>q. strict_prefix q ?bp \<Longrightarrow> \<not> isFile d1 q"
    and nodir1: "statInfo d1 ?bp \<noteq> Inr None"
    and P1: "?P = (case os_MkdirAll d1 (filepath_Dir ?bp) of
                    (Some e, d2) \<Rightarrow>
                      (Some (Failed ''failed to create blob directory'' e),
                       s\<lparr>disk := d2, containers := (containers s)(?key \<mapsto> True)\<rparr>)
                  | (None, d2) \<Rightarrow>
                      (case os_WriteFile d2 ?bp content of
                         Inl e \<Rightarrow> (Some (Failed ''failed to write blob'' e),
                                    s\<lparr>disk := d2, containers := (containers s)(?key \<mapsto> True)\<rparr>)
                       | Inr d3 \<Rightarrow>
                           (None, s\<lparr>disk := d3, containers := (containers s)(?key \<mapsto> True)\<rparr>)))"
    by blast
  from mkdir_write_ok[OF ne nul short nofile1 nodir1, of content]
  obtain d2 d3 where mk2: "os_MkdirAll d1 (filepath_Dir ?bp) = (None, d2)"
    and wr: "os_WriteFile d2 ?bp content = Inr d3"
    by (auto simp: filepath_Dir_def)
  have P: "?P = (None, s\<lparr>disk := d3, containers := (containers s)(?key \<mapsto> True)\<rparr>)"
    by (simp add: P1 mk2 wr)
  show "fst ?P = None" by (simp add: P)
  show "ContainerExists (snd ?P) account containerName" by (simp add: P ContainerExists_def)
  have dirs: "isDir (disk (snd ?P)) q" if q: "strict_prefix q ?bp" for q
  proof -
    from q have "prefix q (filepath_Dir ?bp)"
      unfolding filepath_Dir_def by (rule strict_prefix_butlast)
    from mkdirAll_prefix[OF mk2 this] have "statInfo d2 q = Inr None" .
    with writeFile_other[OF wr not_prefix_strict[OF q]] show ?thesis
      by (simp add: P isDir_statInfo)
  qed
  from dirs[OF inside] show "isDir (disk (snd ?P)) ?cp" .
  from dirs show "\<forall>q. strict_prefix q ?bp \<longrightarrow> isDir (disk (snd ?P)) q" by blast
  show "os_Stat (disk (snd ?P)) ?bp = Inr (File content)"
    using writeFile_same[OF wr] by (simp add: P stat_File_statInfo)
qed

text \<open>
  The blob \<^verbatim>\<open>dir/f.txt\<close> on the fresh store, where the container was never created, and the
  blob \<^verbatim>\<open>dir/g.txt\<close> on a store started anew over a disk that has the container's directory
  and a blob in it, while the index is empty.
\<close>

theorem PutBlob_creates_container_witness:
  "\<not> has (containers freshStore) (containerKey ''acct'' ''c1'')
   \<and> insideContainer freshStore ''acct'' ''c1'' ''dir/f.txt''
   \<and> validPath (blobPath freshStore ''acct'' ''c1'' ''dir/f.txt'')
   \<and> filter (isFile (disk freshStore))
        (prefixes (filepath_Dir (blobPath freshStore ''acct'' ''c1'' ''dir/f.txt''))) = []
   \<and> \<not> isDir (disk freshStore) (blobPath freshStore ''acct'' ''c1'' ''dir/f.txt'')
   \<and> fst (PutBlob freshStore ''acct'' ''c1'' ''dir/f.txt'' [104, 105] ''text/plain'' Map.empty) = None
   \<and> ContainerExists (snd (PutBlob freshStore ''acct'' ''c1'' ''dir/f.txt'' [104, 105] ''text/plain'' Map.empty))
        ''acct'' ''c1''
   \<and> isDir (disk (snd (PutBlob freshStore ''acct'' ''c1'' ''dir/f.txt'' [104, 105] ''text/plain'' Map.empty)))
        (containerPath freshStore ''acct'' ''c1'')
   \<and> os_Stat (disk (snd (PutBlob freshStore ''acct'' ''c1'' ''dir/f.txt'' [104, 105] ''text/plain'' Map.empty)))
        (blobPath freshStore ''acct'' ''c1'' ''dir/f.txt'') = Inr (File [104, 105])
   \<and> \<not> has (containers restartedStore) (containerKey ''acct'' ''c1'')
   \<and> isDir (disk restartedStore) (containerPath restartedStore ''acct'' ''c1'')
   \<and> insideContainer restartedStore ''acct'' ''c1'' ''dir/g.txt''
   \<and> validPath (blobPath restartedStore ''acct'' ''c1'' ''dir/g.txt'')
   \<and> filter (isFile (disk restartedStore))
        (prefixes (filepath_Dir (blobPath restartedStore ''acct'' ''c1'' ''dir/g.txt''))) = []
   \<and> \<not> isDir (disk restartedStore) (blobPath restartedStore ''acct'' ''c1'' ''dir/g.txt'')
   \<and> fst (PutBlob restartedStore ''acct'' ''c1'' ''dir/g.txt'' [7] ''text/plain'' Map.empty) = None
   \<and> ContainerExists (snd (PutBlob restartedStore ''acct'' ''c1'' ''dir/g.txt'' [7] ''text/plain'' Map.empty))
        ''acct'' ''c1''
   \<and> os_Stat (disk (snd (PutBlob restartedStore ''acct'' ''c1'' ''dir/g.txt'' [7] ''text/plain'' Map.empty)))
        (blobPath restartedStore ''acct'' ''c1'' ''dir/g.txt'') = Inr (File [7])"
proof -
  have above: "\<forall>q. strict_prefix q p \<longrightarrow> \<not> isFile es q"
    if "filter (isFile es) (prefixes (filepath_Dir p)) = []" for es p
  proof (intro allI impI)
    fix q assume "strict_prefix q p"
    then have "q \<in> set (prefixes (filepath_Dir p))"
      by (simp add: in_set_prefixes filepath_Dir_def strict_prefix_butlast)
    with that show "\<not> isFile es q" by (simp add: filter_empty_conv)
  qed
  have f0: "\<not> has (containers freshStore) (containerKey ''acct'' ''c1'')" by code_simp
  have f1: "insideContainer freshStore ''acct'' ''c1'' ''dir/f.txt''" by code_simp
  have f2: "validPath (blobPath freshStore ''acct'' ''c1'' ''dir/f.txt'')" by code_simp
  have f3: "filter (isFile (disk freshStore))
        (prefixes (filepath_Dir (blobPath freshStore ''acct'' ''c1'' ''dir/f.txt''))) = []"
    by code_simp
  have f4: "\<not> isDir (disk freshStore) (blobPath freshStore ''acct'' ''c1'' ''dir/f.txt'')"
    by code_simp
  have r0: "\<not> has (containers restartedStore) (containerKey ''acct'' ''c1'')
            \<and> isDir (disk restartedStore) (containerPath restartedStore ''acct'' ''c1'')"
    by code_simp
  have r1: "insideContainer restartedStore ''acct'' ''c1'' ''dir/g.txt''" by code_simp
  have r2: "validPath (blobPath restartedStore ''acct'' ''c1'' ''dir/g.txt'')" by code_simp
  have r3: "filter (isFile (disk restartedStore))
        (prefixes (filepath_Dir (blobPath restartedStore ''acct'' ''c1'' ''dir/g.txt''))) = []"
    by code_simp
  have r4: "\<not> isDir (disk restartedStore) (blobPath restartedStore ''acct'' ''c1'' ''dir/g.txt'')"
    by code_simp
  from f1 f2 above[OF f3] f4
    PutBlob_creates_container
      [of freshStore "''acct''" "''c1''" "''dir/f.txt''" "[104, 105]" "''text/plain''" Map.empty]
  have c1: "fst (PutBlob freshStore ''acct'' ''c1'' ''dir/f.txt'' [104, 105] ''text/plain'' Map.empty) = None
   \<and> ContainerExists (snd (PutBlob freshStore ''acct'' ''c1'' ''dir/f.txt'' [104, 105] ''text/plain'' Map.empty))
        ''acct'' ''c1''
   \<and> isDir (disk (snd (PutBlob freshStore ''acct'' ''c1'' ''dir/f.txt'' [104, 105] ''text/plain'' Map.empty)))
        (containerPath freshStore ''acct'' ''c1'')
   \<and> os_Stat (disk (snd (PutBlob freshStore ''acct'' ''c1'' ''dir/f.txt'' [104, 105] ''text/plain'' Map.empty)))
        (blobPath freshStore ''acct'' ''c1'' ''dir/f.txt'') = Inr (File [104, 105])"
    by blast
  from r1 r2 above[OF r3] r4
    PutBlob_creates_container
      [of restartedStore "''acct''" "''c1''" "''dir/g.txt''" "[7]" "''text/plain''" Map.empty]
  have c2: "fst (PutBlob restartedStore ''acct'' ''c1'' ''dir/g.txt'' [7] ''text/plain'' Map.empty) = None
   \<and> ContainerExists (snd (PutBlob restartedStore ''acct'' ''c1'' ''dir/g.txt'' [7] ''text/plain'' Map.empty))
        ''acct'' ''c1''
   \<and> os_Stat (disk (snd (PutBlob restartedStore ''acct'' ''c1'' ''dir/g.txt'' [7] ''text/plain'' Map.empty)))
        (blobPath restartedStore ''acct'' ''c1'' ''dir/g.txt'') = Inr (File [7])"
    by blast
  from f0 f1 f2 f3 f4 r0 r1 r2 r3 r4 c1 c2 show ?thesis by blast
qed

text \<open>
  The claim as it was stated, for every name, fails. On the fresh store, where no container
  is in the index, the blob names \<^verbatim>\<open>.\<close> and the empty one are joined to the container's
  directory itself, and writing it fails; a blob name with a NUL byte is refused when the
  file is opened, and so is one of 300 bytes; an account name with a NUL byte is refused
  when the container's directory is made. On a store started anew over a disk that has the
  blob \<^verbatim>\<open>f.txt\<close> (the index is empty again) the blob name \<^verbatim>\<open>f.txt/x\<close> fails, its parent being a
  regular file; and on a store started anew over a disk that has the blob \<^verbatim>\<open>dir/f.txt\<close> the
  blob name \<^verbatim>\<open>dir\<close> fails, its path being a directory.
\<close>

theorem PutBlob_creates_container_counterexample:
  "\<not> has (containers freshStore) (containerKey ''acct'' ''c1'')
   \<and> fst (PutBlob freshStore ''acct'' ''c1'' ''.'' [104, 105] ''text/plain'' Map.empty)
       = Some (Failed ''failed to write blob'' EISDIR)
   \<and> fst (PutBlob freshStore ''acct'' ''c1'' [] [104, 105] ''text/plain'' Map.empty)
       = Some (Failed ''failed to write blob'' EISDIR)
   \<and> fst (PutBlob freshStore ''acct'' ''c1'' [CHR ''a'', CHR 0x00, CHR ''b''] [104, 105] ''text/plain'' Map.empty)
       = Some (Failed ''failed to write blob'' EINVAL)
   \<and> fst (PutBlob freshStore ''acct'' ''c1'' (replicate 300 CHR ''a'') [104, 105] ''text/plain'' Map.empty)
       = Some (Failed ''failed to write blob'' ENAMETOOLONG)
   \<and> \<not> has (containers freshStore) (containerKey [CHR ''a'', CHR 0x00] ''c1'')
   \<and> fst (PutBlob freshStore [CHR ''a'', CHR 0x00] ''c1'' ''f.txt'' [104, 105] ''text/plain'' Map.empty)
       = Some (Failed ''failed to ensure container directory'' EINVAL)
   \<and> map_sum id disk (NewFileBlobStore (disk taggedStore) ''./data'') = Inr (disk restartedStore)
   \<and> \<not> has (containers restartedStore) (containerKey ''acct'' ''c1'')
   \<and> fst (PutBlob restartedStore ''acct'' ''c1'' ''f.txt/x'' [104, 105] ''text/plain'' Map.empty)
       = Some (Failed ''failed to create blob directory'' ENOTDIR)
   \<and> map_sum id disk (NewFileBlobStore (disk dirStore) ''./data'') = Inr (disk restartedDirStore)
   \<and> \<not> has (containers restartedDirStore) (containerKey ''acct'' ''c1'')
   \<and> insideContainer restartedDirStore ''acct'' ''c1'' ''dir''
   \<and> fst (PutBlob restartedDirStore ''acct'' ''c1'' ''dir'' [104, 105] ''text/plain'' Map.empty)
       = Some (Failed ''failed to write blob'' EISDIR)"
  by code_simp

subsection \<open>Empty names\<close>

text \<open>
  C6, as the code has it. The engine checks no name and none of its errors is of kind
  InvalidArgument. The check for empty names is made by the request handlers: a handler
  given an empty account or container name (or, for the three blob operations, an empty
  blob name) answers with status 400 and the code \<^verbatim>\<open>InvalidRequest\<close>, and does not call the
  engine, so that the store is as it was.
\<close>

theorem handlers_reject_empty_names:
  "(account = [] \<or> containerName = [] \<longrightarrow>
      handleCreateContainer osText s account containerName
        = (writeError 400 ''InvalidRequest'' ''Account and container name are required'', s)
      \<and> handleDeleteContainer osText s account containerName
        = (writeError 400 ''InvalidRequest'' ''Account and container name are required'', s)
      \<and> handleListBlobs osText s account containerName pfx maxresults
        = writeError 400 ''InvalidRequest'' ''Account and container name are required'')
   \<and> (account = [] \<or> containerName = [] \<or> blobName = [] \<longrightarrow>
      handlePutBlob osText s account containerName blobName content contentTypeHeader metadata
        = (writeError 400 ''InvalidRequest'' ''Account, container, and blob name are required'', s)
      \<and> handleGetBlob osText s account containerName blobName
        = writeError 400 ''InvalidRequest'' ''Account, container, and blob name are required''
      \<and> handleDeleteBlob osText s account containerName blobName
        = (writeError 400 ''InvalidRequest'' ''Account, container, and blob name are required'', s))
   \<and> \<not> failsWith InvalidArgument (fst (CreateContainer s account containerName))
   \<and> \<not> failsWith InvalidArgument (fst (DeleteContainer s account containerName))
   \<and> \<not> failsWith InvalidArgument (fst (PutBlob s account containerName blobName content contentType metadata))
   \<and> \<not> failsWithL InvalidArgument (GetBlob s account containerName blobName)
   \<and> \<not> failsWith InvalidArgument (fst (DeleteBlob s account containerName blobName))
   \<and> \<not> failsWithL InvalidArgument (ListBlobs s account containerName pfx maxResults)"
  by (simp add: handleCreateContainer_def handleDeleteContainer_def handleListBlobs_def
        handlePutBlob_def handleGetBlob_def handleDeleteBlob_def never_InvalidArgument)

text \<open>Three requests with an empty name on the fresh store.\<close>

theorem handlers_reject_empty_names_witness:
  "statusCode (fst (handleCreateContainer (\<lambda>e. []) freshStore [] ''c1'')) = 400
   \<and> snd (handleCreateContainer (\<lambda>e. []) freshStore [] ''c1'') = freshStore
   \<and> statusCode (fst (handlePutBlob (\<lambda>e. []) freshStore ''acct'' ''c1'' [] [104, 105] ''text/plain'' Map.empty)) = 400
   \<and> snd (handlePutBlob (\<lambda>e. []) freshStore ''acct'' ''c1'' [] [104, 105] ''text/plain'' Map.empty) = freshStore
   \<and> statusCode (handleGetBlob (\<lambda>e. []) freshStore ''acct'' [] ''f.txt'') = 400"
proof -
  have h1: "([]::string) = [] \<or> ''c1'' = []" by simp
  have h2: "''acct'' = [] \<or> ''c1'' = [] \<or> ([]::string) = []" by simp
  have h3: "''acct'' = [] \<or> ([]::string) = [] \<or> ''f.txt'' = []" by simp
  from h1 handlers_reject_empty_names[of "[]" "''c1''" "\<lambda>e. []" freshStore]
  have c1: "handleCreateContainer (\<lambda>e. []) freshStore [] ''c1''
        = (writeError 400 ''InvalidRequest'' ''Account and container name are required'', freshStore)"
    by blast
  from h2 handlers_reject_empty_names
            [of "''acct''" "''c1''" "\<lambda>e. []" freshStore _ _ "[]" "[104, 105]" "''text/plain''" Map.empty]
  have c2: "handlePutBlob (\<lambda>e. []) freshStore ''acct'' ''c1'' [] [104, 105] ''text/plain'' Map.empty
        = (writeError 400 ''InvalidRequest'' ''Account, container, and blob name are required'', freshStore)"
    by blast
  from h3 handlers_reject_empty_names[of "''acct''" "[]" "\<lambda>e. []" freshStore _ _ "''f.txt''"]
  have c3: "handleGetBlob (\<lambda>e. []) freshStore ''acct'' [] ''f.txt''
        = writeError 400 ''InvalidRequest'' ''Account, container, and blob name are required''"
    by blast
  show ?thesis by (simp add: c1 c2 c3 writeError_def)
qed

text \<open>
  The claim as it was stated fails: called directly with an empty account or an empty
  container name, \<^verbatim>\<open>CreateContainer\<close> and \<^verbatim>\<open>PutBlob\<close> succeed (\<^verbatim>\<open>filepath.Join\<close> drops the empty
  element); with an empty blob name \<^verbatim>\<open>PutBlob\<close> fails, but with the wrapped error of
  \<^verbatim>\<open>os.WriteFile\<close>.
\<close>

theorem engine_accepts_empty_names_counterexample:
  "fst (CreateContainer freshStore [] ''c1'') = None
   \<and> ContainerExists (snd (CreateContainer freshStore [] ''c1'')) [] ''c1''
   \<and> isDir (disk (snd (CreateContainer freshStore [] ''c1''))) [''data'', ''blob'', ''c1'']
   \<and> \<not> failsWith InvalidArgument (fst (CreateContainer freshStore [] ''c1''))
   \<and> fst (CreateContainer freshStore ''acct'' []) = None
   \<and> fst (PutBlob freshStore [] ''c1'' ''f.txt'' [104, 105] ''text/plain'' Map.empty) = None
   \<and> fst (PutBlob freshStore ''acct'' ''c1'' [] [104, 105] ''text/plain'' Map.empty)
       = Some (Failed ''failed to write blob'' EISDIR)
   \<and> \<not> failsWith InvalidArgument
         (fst (PutBlob freshStore ''acct'' ''c1'' [] [104, 105] ''text/plain'' Map.empty))"
  by code_simp

subsection \<open>Deleting a container\<close>

text \<open>
  C7, as the code has it. \<^verbatim>\<open>DeleteContainer\<close> fails with an error of kind NotFound exactly
  when the index does not have the key. When it succeeds, \<^verbatim>\<open>ContainerExists\<close> is false
  afterwards, \<^verbatim>\<open>os.Stat\<close> finds nothing at the container's path or below it (neither a file nor
  a directory), and every blob that \<^verbatim>\<open>GetBlob\<close> returned before and whose path is the
  container's or lies below it is gone: \<^verbatim>\<open>GetBlob\<close> fails for it with NotFound.
\<close>

theorem DeleteContainer_NotFound:
  "(failsWith NotFound (fst (DeleteContainer s account containerName))
      \<longleftrightarrow> \<not> has (containers s) (containerKey account containerName))
   \<and> (fst (DeleteContainer s account containerName) = None \<longrightarrow>
        \<not> ContainerExists (snd (DeleteContainer s account containerName)) account containerName
        \<and> (\<forall>rel n. os_Stat (disk (snd (DeleteContainer s account containerName)))
                     (containerPath s account containerName @ rel) \<noteq> Inr n)
        \<and> (\<forall>blobName blob.
              GetBlob s account containerName blobName = Inr blob
              \<and> prefix (containerPath s account containerName)
                       (blobPath s account containerName blobName) \<longrightarrow>
              failsWithL NotFound
                (GetBlob (snd (DeleteContainer s account containerName))
                   account containerName blobName)))"
proof (intro conjI impI allI)
  let ?cp = "containerPath s account containerName"
  let ?D = "DeleteContainer s account containerName"
  show "failsWith NotFound (fst ?D) \<longleftrightarrow> \<not> has (containers s) (containerKey account containerName)"
    by (auto simp: DeleteContainer_unfold failsWith_def split: prod.splits option.splits)
  assume ok: "fst ?D = None"
  then obtain d where rm: "os_RemoveAll (disk s) ?cp = (None, d)"
    and D: "?D = (None, s\<lparr>disk := d, containers := (containers s)(containerKey account containerName := None)\<rparr>)"
    by (auto simp: DeleteContainer_unfold split: prod.splits option.splits if_splits)
  show "\<not> ContainerExists (snd ?D) account containerName"
    by (simp add: D ContainerExists_def)
  show "os_Stat (disk (snd ?D)) (?cp @ rel) \<noteq> Inr n" for rel n
    using removeAll_nothing[OF rm, of rel] stat_Inr_statInfo[of d "?cp @ rel"]
    by (auto simp: D)
  show "failsWithL NotFound (GetBlob (snd ?D) account containerName blobName)"
    if "GetBlob s account containerName blobName = Inr blob
        \<and> prefix ?cp (blobPath s account containerName blobName)" for blobName blob
  proof -
    from that obtain rel where rel: "blobPath s account containerName blobName = ?cp @ rel"
      by (auto simp: prefix_def)
    from that GetBlob_Inr[of s account containerName blobName blob]
    obtain d0 where "statInfo (disk s) (?cp @ rel) = Inr (Some d0)" by (auto simp: rel)
    from statInfo_valid[OF this] have "\<not> nulIn (?cp @ rel)" by blast
    from removeAll_below[OF rm this] have gone: "statInfo d (?cp @ rel) = Inl ENOENT" .
    have "blobPath (snd ?D) account containerName blobName = ?cp @ rel"
      using blobPath_baseDir[of "snd ?D" s account containerName blobName] rel by (simp add: D)
    with gone show ?thesis
      by (simp add: GetBlob_NotFound D)
  qed
qed

text \<open>
  The container of the blob \<^verbatim>\<open>dir/f.txt\<close> is deleted, and the blob with it; the container
  \<^verbatim>\<open>c2\<close> was never made.
\<close>

theorem DeleteContainer_NotFound_witness:
  "fst (DeleteContainer dirStore ''acct'' ''c1'') = None
   \<and> map_sum id Content (GetBlob dirStore ''acct'' ''c1'' ''dir/f.txt'') = Inr [104, 105]
   \<and> prefix (containerPath dirStore ''acct'' ''c1'') (blobPath dirStore ''acct'' ''c1'' ''dir/f.txt'')
   \<and> \<not> ContainerExists (snd (DeleteContainer dirStore ''acct'' ''c1'')) ''acct'' ''c1''
   \<and> failsWithL NotFound
        (GetBlob (snd (DeleteContainer dirStore ''acct'' ''c1'')) ''acct'' ''c1'' ''dir/f.txt'')
   \<and> \<not> has (containers dirStore) (containerKey ''acct'' ''c2'')
   \<and> failsWith NotFound (fst (DeleteContainer dirStore ''acct'' ''c2''))"
proof -
  have h1: "fst (DeleteContainer dirStore ''acct'' ''c1'') = None" by code_simp
  have g: "map_sum id Content (GetBlob dirStore ''acct'' ''c1'' ''dir/f.txt'') = Inr [104, 105]"
    by code_simp
  have h2: "prefix (containerPath dirStore ''acct'' ''c1'') (blobPath dirStore ''acct'' ''c1'' ''dir/f.txt'')"
    by code_simp
  have h3: "\<not> has (containers dirStore) (containerKey ''acct'' ''c2'')" by code_simp
  from g obtain blob where gb: "GetBlob dirStore ''acct'' ''c1'' ''dir/f.txt'' = Inr blob"
    by (cases "GetBlob dirStore ''acct'' ''c1'' ''dir/f.txt''") auto
  from h1 gb h2 DeleteContainer_NotFound[of dirStore "''acct''" "''c1''"]
  have c1: "\<not> ContainerExists (snd (DeleteContainer dirStore ''acct'' ''c1'')) ''acct'' ''c1''
   \<and> failsWithL NotFound
        (GetBlob (snd (DeleteContainer dirStore ''acct'' ''c1'')) ''acct'' ''c1'' ''dir/f.txt'')"
    by blast
  from h3 DeleteContainer_NotFound[of dirStore "''acct''" "''c2''"]
  have c2: "failsWith NotFound (fst (DeleteContainer dirStore ''acct'' ''c2''))"
    by blast
  from h1 g h2 h3 c1 c2 show ?thesis by blast
qed

text \<open>
  The claim as it was stated fails for a blob name that leaves the container's directory:
  the blob \<^verbatim>\<open>../d/x\<close> was stored through the container \<^verbatim>\<open>c1\<close> and is read back through it
  also after the container has been deleted.
\<close>

theorem DeleteContainer_NotFound_counterexample:
  "map_sum id Content (GetBlob escapeStore ''acct'' ''c1'' ''../d/x'') = Inr [7]
   \<and> fst (DeleteContainer escapeStore ''acct'' ''c1'') = None
   \<and> map_sum id Content
        (GetBlob (snd (DeleteContainer escapeStore ''acct'' ''c1'')) ''acct'' ''c1'' ''../d/x'') = Inr [7]
   \<and> \<not> failsWithL NotFound
        (GetBlob (snd (DeleteContainer escapeStore ''acct'' ''c1'')) ''acct'' ''c1'' ''../d/x'')"
  by code_simp

subsection \<open>Content type and metadata\<close>

text \<open>
  C8. Every blob \<^verbatim>\<open>GetBlob\<close> returns has the content type \<^verbatim>\<open>application/octet-stream\<close> and an
  empty metadata map, and so has every entry \<^verbatim>\<open>ListBlobs\<close> returns; and the result of \<^verbatim>\<open>PutBlob\<close>
  (error and state) is the same whatever content type and metadata it is given.
\<close>

theorem reads_report_placeholders:
  "(GetBlob s account containerName blobName = Inr blob \<longrightarrow>
      Blob.ContentType blob = ''application/octet-stream'' \<and> Blob.Metadata blob = Map.empty)
   \<and> (ListBlobs s account containerName pfx maxResults = Inr infos \<longrightarrow>
        (\<forall>i \<in> set infos.
           BlobInfo.ContentType i = ''application/octet-stream'' \<and> BlobInfo.Metadata i = Map.empty))
   \<and> PutBlob s account containerName blobName content contentType metadata
        = PutBlob s account containerName blobName content contentType' metadata'"
proof (intro conjI impI)
  assume "GetBlob s account containerName blobName = Inr blob"
  then show "Blob.ContentType blob = ''application/octet-stream''" "Blob.Metadata blob = Map.empty"
    by (auto simp: GetBlob_def Let_def split: sum.splits if_splits)
next
  assume "ListBlobs s account containerName pfx maxResults = Inr infos"
  then obtain info where "infos = walkFn pfx maxResults (filepath_Walk info) []"
    by (auto simp: ListBlobs_def Let_def split: sum.splits if_splits)
  then show "\<forall>i \<in> set infos.
           BlobInfo.ContentType i = ''application/octet-stream'' \<and> BlobInfo.Metadata i = Map.empty"
    using walkFn_placeholders[of "[]" pfx maxResults "filepath_Walk info"] by simp
next
  show "PutBlob s account containerName blobName content contentType metadata
        = PutBlob s account containerName blobName content contentType' metadata'"
    by (simp add: PutBlob_def)
qed

text \<open>A blob written as \<^verbatim>\<open>text/plain\<close> with one pair of metadata, read and listed.\<close>

theorem reads_report_placeholders_witness:
  "map_sum id (\<lambda>blob. (Content blob, Blob.ContentType blob)) (GetBlob taggedStore ''acct'' ''c1'' ''f.txt'')
     = Inr ([104, 105], ''application/octet-stream'')
   \<and> map_sum id (map (\<lambda>i. (BlobInfo.Name i, BlobInfo.ContentType i)))
        (ListBlobs taggedStore ''acct'' ''c1'' [] 0)
     = Inr [(''f.txt'', ''application/octet-stream'')]"
proof -
  have g: "map_sum id Content (GetBlob taggedStore ''acct'' ''c1'' ''f.txt'') = Inr [104, 105]"
    by code_simp
  have l: "map_sum id (map BlobInfo.Name) (ListBlobs taggedStore ''acct'' ''c1'' [] 0) = Inr [''f.txt'']"
    by code_simp
  from g obtain blob where gb: "GetBlob taggedStore ''acct'' ''c1'' ''f.txt'' = Inr blob"
    and cb: "Content blob = [104, 105]"
    by (cases "GetBlob taggedStore ''acct'' ''c1'' ''f.txt''") auto
  from l obtain i where li: "ListBlobs taggedStore ''acct'' ''c1'' [] 0 = Inr [i]"
    and ni: "BlobInfo.Name i = ''f.txt''"
    by (cases "ListBlobs taggedStore ''acct'' ''c1'' [] 0") auto
  from reads_report_placeholders[of taggedStore "''acct''" "''c1''" "''f.txt''" blob "[]" 0 "[i]"]
    gb li
  have "Blob.ContentType blob = ''application/octet-stream''"
    and "BlobInfo.ContentType i = ''application/octet-stream''"
    by simp_all
  with gb cb li ni show ?thesis by simp
qed

subsection \<open>Deleting a blob\<close>

text \<open>
  C9, as the code has it. \<^verbatim>\<open>DeleteBlob\<close> fails with an error of kind NotFound exactly when
  \<^verbatim>\<open>os.Stat\<close> of the blob's path reports that nothing is there. When a regular file is at the
  path, \<^verbatim>\<open>DeleteBlob\<close> succeeds; every path that is not the blob's path or below it is as it
  was (the container's directory and the other blobs among them); and \<^verbatim>\<open>GetBlob\<close> of the same
  names then fails with NotFound.
\<close>

theorem DeleteBlob_NotFound:
  "(failsWith NotFound (fst (DeleteBlob s account containerName blobName))
      \<longleftrightarrow> os_Stat (disk s) (blobPath s account containerName blobName) = Inl ENOENT)
   \<and> (os_Stat (disk s) (blobPath s account containerName blobName) = Inr (File d) \<longrightarrow>
        fst (DeleteBlob s account containerName blobName) = None
        \<and> (\<forall>q. \<not> prefix (blobPath s account containerName blobName) q \<longrightarrow>
               statInfo (disk (snd (DeleteBlob s account containerName blobName))) q
                 = statInfo (disk s) q)
        \<and> failsWithL NotFound
            (GetBlob (snd (DeleteBlob s account containerName blobName))
               account containerName blobName))"
proof (intro conjI impI)
  let ?bp = "blobPath s account containerName blobName"
  let ?D = "DeleteBlob s account containerName blobName"
  show "failsWith NotFound (fst ?D) \<longleftrightarrow> os_Stat (disk s) ?bp = Inl ENOENT"
    using remove_ENOENT[of "disk s" ?bp]
    by (auto simp: DeleteBlob_unfold failsWith_def stat_Inl_statInfo split: sum.splits)
  assume "os_Stat (disk s) ?bp = Inr (File d)"
  then have f: "statInfo (disk s) ?bp = Inr (Some d)" by (simp add: stat_File_statInfo)
  then obtain d' where rm: "os_Remove (disk s) ?bp = Inr d'"
    using remove_file by blast
  then have D: "?D = (None, s\<lparr>disk := d'\<rparr>)" by (simp add: DeleteBlob_unfold)
  show "fst ?D = None" by (simp add: D)
  show "\<forall>q. \<not> prefix ?bp q \<longrightarrow> statInfo (disk (snd ?D)) q = statInfo (disk s) q"
    using remove_other[OF rm] by (simp add: D)
  have "blobPath (snd ?D) account containerName blobName = ?bp"
    by (rule blobPath_baseDir) (simp add: D)
  moreover have "statInfo d' ?bp = Inl ENOENT"
    using remove_gone[OF rm] by simp
  ultimately show "failsWithL NotFound (GetBlob (snd ?D) account containerName blobName)"
    by (simp add: GetBlob_NotFound D)
qed

text \<open>The blob \<^verbatim>\<open>dir/f.txt\<close> is deleted; the blob \<^verbatim>\<open>nope\<close> is not there.\<close>

theorem DeleteBlob_NotFound_witness:
  "os_Stat (disk dirStore) (blobPath dirStore ''acct'' ''c1'' ''dir/f.txt'') = Inr (File [104, 105])
   \<and> fst (DeleteBlob dirStore ''acct'' ''c1'' ''dir/f.txt'') = None
   \<and> failsWithL NotFound
        (GetBlob (snd (DeleteBlob dirStore ''acct'' ''c1'' ''dir/f.txt'')) ''acct'' ''c1'' ''dir/f.txt'')
   \<and> os_Stat (disk dirStore) (blobPath dirStore ''acct'' ''c1'' ''nope'') = Inl ENOENT
   \<and> failsWith NotFound (fst (DeleteBlob dirStore ''acct'' ''c1'' ''nope''))"
proof -
  have h1: "os_Stat (disk dirStore) (blobPath dirStore ''acct'' ''c1'' ''dir/f.txt'') = Inr (File [104, 105])"
    by code_simp
  have h2: "os_Stat (disk dirStore) (blobPath dirStore ''acct'' ''c1'' ''nope'') = Inl ENOENT"
    by code_simp
  from h1 DeleteBlob_NotFound[of dirStore "''acct''" "''c1''" "''dir/f.txt''" "[104, 105]"]
  have c1: "fst (DeleteBlob dirStore ''acct'' ''c1'' ''dir/f.txt'') = None
   \<and> failsWithL NotFound
        (GetBlob (snd (DeleteBlob dirStore ''acct'' ''c1'' ''dir/f.txt'')) ''acct'' ''c1'' ''dir/f.txt'')"
    by blast
  from h2 DeleteBlob_NotFound[of dirStore "''acct''" "''c1''" "''nope''"]
  have c2: "failsWith NotFound (fst (DeleteBlob dirStore ''acct'' ''c1'' ''nope''))"
    by blast
  from h1 h2 c1 c2 show ?thesis by blast
qed

text \<open>
  The claim as it was stated fails: the blob \<^verbatim>\<open>dir/f.txt\<close> exists, so \<^verbatim>\<open>dir\<close> is a directory
  with an entry and there is no file \<^verbatim>\<open>dir\<close>, nor a file \<^verbatim>\<open>dir/f.txt/z\<close>; deleting either fails,
  but with the wrapped error of \<^verbatim>\<open>os.Remove\<close>, which is not NotFound.
\<close>

theorem DeleteBlob_NotFound_counterexample:
  "isDir (disk dirStore) (blobPath dirStore ''acct'' ''c1'' ''dir'')
   \<and> fst (DeleteBlob dirStore ''acct'' ''c1'' ''dir'') = Some (Failed ''failed to delete blob'' ENOTEMPTY)
   \<and> \<not> failsWith NotFound (fst (DeleteBlob dirStore ''acct'' ''c1'' ''dir''))
   \<and> os_Stat (disk dirStore) (blobPath dirStore ''acct'' ''c1'' ''dir/f.txt/z'') = Inl ENOTDIR
   \<and> fst (DeleteBlob dirStore ''acct'' ''c1'' ''dir/f.txt/z'') = Some (Failed ''failed to delete blob'' ENOTDIR)
   \<and> \<not> failsWith NotFound (fst (DeleteBlob dirStore ''acct'' ''c1'' ''dir/f.txt/z''))"
  by code_simp

subsection \<open>DeleteBlob and the index\<close>

text \<open>
  C10. \<^verbatim>\<open>DeleteBlob\<close> never changes the index: whether it succeeds or fails, the index of
  the state it leaves is the index it found, so \<^verbatim>\<open>ContainerExists\<close> answers as before for
  every container; a container whose last blob has been deleted is still reported to exist.
\<close>

theorem DeleteBlob_keeps_index:
  "containers (snd (DeleteBlob s account containerName blobName)) = containers s
   \<and> ContainerExists (snd (DeleteBlob s account containerName blobName)) a c = ContainerExists s a c"
  by (simp add: DeleteBlob_def ContainerExists_def Let_def split: sum.splits)

text \<open>
  The container \<^verbatim>\<open>acct/c1\<close> holds the single blob \<^verbatim>\<open>f.txt\<close>; after the blob is deleted the
  container still exists.
\<close>

theorem DeleteBlob_keeps_index_witness:
  "ContainerExists
     (snd (DeleteBlob
        (snd (PutBlob freshStore ''acct'' ''c1'' ''f.txt'' [104, 105] ''text/plain'' Map.empty))
        ''acct'' ''c1'' ''f.txt''))
     ''acct'' ''c1''"
proof -
  have "ContainerExists
          (snd (PutBlob freshStore ''acct'' ''c1'' ''f.txt'' [104, 105] ''text/plain'' Map.empty))
          ''acct'' ''c1''"
    by code_simp
  then show ?thesis
    using DeleteBlob_keeps_index
      [of "snd (PutBlob freshStore ''acct'' ''c1'' ''f.txt'' [104, 105] ''text/plain'' Map.empty)"
          "''acct''" "''c1''" "''f.txt''" "''acct''" "''c1''"]
    by simp
qed

end
